theory Spec2Isabelle
  imports Complex_Main
begin

section \<open>Arrays of floats with missing values\<close>

text \<open>
  The MODIS LAI pipeline of \<^verbatim>\<open>process_MODIS_LAI\<close> works on numpy arrays of floats in
  which NaN marks a missing value. A cell is modelled as a \<^typ>\<open>real option\<close>:
  \<open>None\<close> is NaN and \<open>Some v\<close> a number, in exact arithmetic: the overflow of the
  64-bit floats is not modelled, and their rounding is written out where a property
  turns on it, in the sum that ends the climatology smoother. A 1-D array is a list of
  cells and a 2-D array the list of its rows.
\<close>

type_synonym cell = "real option"

type_synonym grid = "cell list list"

datatype error = ValueError | IndexError | TypeError | ZeroDivisionError

text \<open>Arithmetic on cells: NaN in either operand gives NaN.\<close>

fun nan_add :: "cell \<Rightarrow> cell \<Rightarrow> cell" where
  "nan_add (Some a) (Some b) = Some (a + b)"
| "nan_add _ _ = None"

fun nan_sub :: "cell \<Rightarrow> cell \<Rightarrow> cell" where
  "nan_sub (Some a) (Some b) = Some (a - b)"
| "nan_sub _ _ = None"

fun nan_mul :: "cell \<Rightarrow> cell \<Rightarrow> cell" where
  "nan_mul (Some a) (Some b) = Some (a * b)"
| "nan_mul _ _ = None"

text \<open>
  A quotient by zero is an infinity or NaN in numpy, with a warning and no exception. The
  model has no infinities and writes it as missing; on the paths modelled here a
  non-missing numerator never meets a zero divisor (lemmas \<open>sd_masked_cells\<close>,
  \<open>inv_var_pos\<close> and \<open>nansum_inv_var_pos\<close> below for the inverse variances and the
  weights; the other divisors are \<open>2\<close> and positive counts).
\<close>

fun nan_div :: "cell \<Rightarrow> cell \<Rightarrow> cell" where
  "nan_div (Some a) (Some b) = (if b = 0 then None else Some (a / b))"
| "nan_div _ _ = None"

text \<open>\<^verbatim>\<open>np.nansum\<close> of a row: the sum of its non-missing cells, \<open>0\<close> when there is none.\<close>

definition nansum :: "cell list \<Rightarrow> real" where
  "nansum xs = sum_list (map (\<lambda>c. case c of None \<Rightarrow> 0 | Some v \<Rightarrow> v) xs)"

text \<open>
  \<^verbatim>\<open>np.nanmean\<close> of a row: the sum of its non-missing cells divided by their number;
  NaN (with a warning, no exception) when every cell is missing.
\<close>

definition present :: "cell list \<Rightarrow> real list" where
  "present xs = List.map_filter (\<lambda>c. c) xs"

definition nanmean :: "cell list \<Rightarrow> cell" where
  "nanmean xs =
     (if present xs = [] then None
      else Some (sum_list (present xs) / real (length (present xs))))"

text \<open>Boolean masks of a 2-D array; a comparison with NaN is false.\<close>

definition isin :: "grid \<Rightarrow> real list \<Rightarrow> bool list list" where
  "isin a vs = map (map (\<lambda>c. case c of None \<Rightarrow> False | Some v \<Rightarrow> v \<in> set vs)) a"

definition invert :: "bool list list \<Rightarrow> bool list list" where
  "invert m = map (map Not) m"

definition less_than :: "grid \<Rightarrow> real \<Rightarrow> bool list list" where
  "less_than a t = map (map (\<lambda>c. case c of None \<Rightarrow> False | Some v \<Rightarrow> v < t)) a"

definition greater_than :: "grid \<Rightarrow> real \<Rightarrow> bool list list" where
  "greater_than a t = map (map (\<lambda>c. case c of None \<Rightarrow> False | Some v \<Rightarrow> t < v)) a"

definition isnan :: "grid \<Rightarrow> bool list list" where
  "isnan a = map (map (\<lambda>c. c = None)) a"

text \<open>
  \<^verbatim>\<open>a[m] = np.nan\<close>: the array after the in-place assignment. The mask has the shape
  of the array wherever the pipeline uses it.
\<close>

definition assign_nan :: "bool list list \<Rightarrow> grid \<Rightarrow> grid" where
  "assign_nan m a = map2 (\<lambda>mr ar. map2 (\<lambda>b c. if b then None else c) mr ar) m a"

section \<open>Quality filter and spatial aggregator\<close>

text \<open>
  \<^verbatim>\<open>get_spatial_weighted_LAI(lai_pixel, sd_pixel, qc_pixel)\<close>. The function assigns into
  \<^verbatim>\<open>lai_pixel\<close> and \<^verbatim>\<open>sd_pixel\<close>, which are the caller's arrays, so the model returns
  the three arrays as they are after the call together with the returned series.
  A boolean index of another shape than the array raises IndexError.
\<close>

definition qc_flags :: "real list" where
  "qc_flags = [0, 2, 24, 26, 32, 34, 56, 58]"

record aggregated =
  lai_after :: grid
  sd_after :: grid
  qc_after :: grid
  weighted_lai :: "cell list"

definition get_spatial_weighted_LAI :: "grid \<Rightarrow> grid \<Rightarrow> grid \<Rightarrow> error + aggregated" where
  "get_spatial_weighted_LAI lai_pixel sd_pixel qc_pixel =
     (if map length lai_pixel = map length qc_pixel \<and> map length sd_pixel = map length qc_pixel
      then
        (let mask = isin qc_pixel qc_flags;
             lai1 = assign_nan (invert mask) lai_pixel;
             sd1 = assign_nan (invert mask) sd_pixel;
             sd2 = assign_nan (less_than sd1 (1 / 10)) sd1;
             lai2 = assign_nan (isnan sd2) lai1;
             lai3 = assign_nan (greater_than lai2 10) lai2;
             inv_var = map (map (\<lambda>s. nan_div (Some 1) (nan_mul s s))) sd2;
             weights = map (\<lambda>row. map (\<lambda>v. nan_div v (Some (nansum row))) row) inv_var;
             weighted_lai_values = map2 (map2 nan_mul) lai3 weights
         in Inr \<lparr>lai_after = lai3, sd_after = sd2, qc_after = qc_pixel,
                 weighted_lai = map nanmean weighted_lai_values\<rparr>)
      else Inl IndexError)"

section \<open>Temporal gap interpolator\<close>

text \<open>
  \<^verbatim>\<open>interpolate_NA_LAI(unfilled_lai)\<close> fits \<^verbatim>\<open>scipy.interpolate.interp1d(..., kind='cubic',
  fill_value="extrapolate")\<close> to the non-missing index/value pairs. The spline is library
  code: the fitted curve is a parameter of the model (an \<open>interpolant\<close> maps the known
  points to the curve, read at the integer positions), and the one behaviour of the
  constructor that the pipeline meets is written out: with fewer than four points a cubic
  \<^verbatim>\<open>interp1d\<close> raises ValueError.
\<close>

type_synonym interpolant = "(nat \<times> real) list \<Rightarrow> nat \<Rightarrow> real"

definition known_points :: "cell list \<Rightarrow> (nat \<times> real) list" where
  "known_points a =
     List.map_filter (\<lambda>p. map_option (\<lambda>v. (fst p, v)) (snd p)) (zip [0..<length a] a)"

definition interp1d :: "interpolant \<Rightarrow> (nat \<times> real) list \<Rightarrow> error + (nat \<Rightarrow> real)" where
  "interp1d cubic pts = (if length pts < 4 then Inl ValueError else Inr (cubic pts))"

definition interpolate_NA_LAI :: "interpolant \<Rightarrow> cell list \<Rightarrow> error + cell list" where
  "interpolate_NA_LAI cubic unfilled_lai =
     (case interp1d cubic (known_points unfilled_lai) of
        Inl e \<Rightarrow> Inl e
      | Inr interp_func \<Rightarrow>
          (let filled1 = map2 (\<lambda>i c. if c = None then Some (interp_func i) else c)
                           [0..<length unfilled_lai] unfilled_lai;
               filled2 = map (\<lambda>c. case c of None \<Rightarrow> None
                                   | Some v \<Rightarrow> if v < 0 then Some 0 else Some v) filled1
           in if filled2 = [] then Inl IndexError
              else Inr (filled2[length filled2 - 1 := Some 0])))"

text \<open>Stages 2 and 3 as \<^verbatim>\<open>get_LAI\<close> chains them.\<close>

definition get_LAI_filled :: "interpolant \<Rightarrow> grid \<Rightarrow> grid \<Rightarrow> grid \<Rightarrow> error + cell list" where
  "get_LAI_filled cubic lai_pixel sd_pixel qc_pixel =
     (case get_spatial_weighted_LAI lai_pixel sd_pixel qc_pixel of
        Inl e \<Rightarrow> Inl e
      | Inr st \<Rightarrow> interpolate_NA_LAI cubic (weighted_lai st))"

section \<open>Calendar regularizer\<close>

text \<open>
  A timestamp is a calendar date, written as its year and its day of the year (1 for
  January 1). \<^verbatim>\<open>pd.date_range(start=f"{year}-01-01", end=f"{year}-12-31", freq='8D')\<close> is
  the days 1, 9, 17, ... of the year up to its last day.
\<close>

type_synonym date = "int \<times> nat"

definition days_in_year :: "int \<Rightarrow> nat" where
  "days_in_year y =
     (if y mod 400 = 0 then 366 else if y mod 100 = 0 then 365
      else if y mod 4 = 0 then 366 else 365)"

definition year_dates :: "int \<Rightarrow> date list" where
  "year_dates y = map (\<lambda>k. (y, 1 + 8 * k)) [0..<(days_in_year y - 1) div 8 + 1]"

definition min_list_int :: "int list \<Rightarrow> int" where
  "min_list_int ys = fold min (tl ys) (hd ys)"

definition max_list_int :: "int list \<Rightarrow> int" where
  "max_list_int ys = fold max (tl ys) (hd ys)"

text \<open>The loop over \<^verbatim>\<open>range(lai_time.dt.year.min(), lai_time.dt.year.max()+1)\<close>.\<close>

definition all_tsteps :: "date list \<Rightarrow> date list" where
  "all_tsteps lai_time =
     concat (map year_dates [min_list_int (map fst lai_time) .. max_list_int (map fst lai_time)])"

text \<open>
  The loop that copies \<^verbatim>\<open>filled_lai[fill_index]\<close> into \<^verbatim>\<open>temp_array[i]\<close> wherever
  \<^verbatim>\<open>result[i]\<close> holds; reading past the end of \<^verbatim>\<open>filled_lai\<close> raises IndexError.
\<close>

fun fill_temp :: "bool list \<Rightarrow> cell list \<Rightarrow> nat \<Rightarrow> error + cell list" where
  "fill_temp [] filled_lai fill_index = Inr []"
| "fill_temp (v # result) filled_lai fill_index =
     (if v then
        (if fill_index < length filled_lai then
           (case fill_temp result filled_lai (Suc fill_index) of
              Inl e \<Rightarrow> Inl e
            | Inr rest \<Rightarrow> Inr (filled_lai ! fill_index # rest))
         else Inl IndexError)
      else
        (case fill_temp result filled_lai fill_index of
           Inl e \<Rightarrow> Inl e
         | Inr rest \<Rightarrow> Inr (None # rest)))"

text \<open>
  \<^verbatim>\<open>a.reshape(-1, w)\<close>: the rows of \<open>w\<close> cells each, and ValueError unless \<open>w\<close>
  divides the length.
\<close>

definition reshape :: "nat \<Rightarrow> 'a list \<Rightarrow> error + 'a list list" where
  "reshape w a =
     (if length a mod w = 0
      then Inr (map (\<lambda>r. take w (drop (r * w) a)) [0..<length a div w])
      else Inl ValueError)"

text \<open>
  Reading \<^verbatim>\<open>a[i]\<close> from a 1-D array: the positions are \<open>0\<close> to \<open>len(a) - 1\<close>, the
  indices \<open>-1\<close> down to \<open>-len(a)\<close> name the same cells from the end backwards, and
  every other index raises IndexError.
\<close>

definition py_get :: "'a list \<Rightarrow> int \<Rightarrow> error + 'a" where
  "py_get a i =
     (if 0 \<le> i \<and> i < int (length a) then Inr (a ! nat i)
      else if i < 0 \<and> - int (length a) \<le> i then Inr (a ! nat (int (length a) + i))
      else Inl IndexError)"

text \<open>
  The loop \<^verbatim>\<open>for position in positions\<close>, which overwrites \<^verbatim>\<open>selected_lai_flatten[position]\<close>
  with the mean of its two neighbours in the array as it is at that moment.
\<close>

fun fill_gaps :: "cell list \<Rightarrow> nat list \<Rightarrow> error + cell list" where
  "fill_gaps a [] = Inr a"
| "fill_gaps a (position # positions) =
     (case py_get a (int position - 1) of
        Inl e \<Rightarrow> Inl e
      | Inr prev \<Rightarrow>
          (case py_get a (int position + 1) of
             Inl e \<Rightarrow> Inl e
           | Inr nxt \<Rightarrow>
               fill_gaps (a[position := nan_div (nan_add prev nxt) (Some 2)]) positions))"

text \<open>The array \<^verbatim>\<open>selected_lai\<close>: the calendar matrix without its first and last year.\<close>

definition selected_lai_of :: "cell list \<Rightarrow> date list \<Rightarrow> error + grid" where
  "selected_lai_of filled_lai lai_time =
     (if lai_time = [] then Inl TypeError
      else
        (let all_time = all_tsteps lai_time;
             result = map (\<lambda>d. d \<in> set lai_time) all_time
         in case fill_temp result filled_lai 0 of
              Inl e \<Rightarrow> Inl e
            | Inr temp_array \<Rightarrow>
                (case reshape 46 temp_array of
                   Inl e \<Rightarrow> Inl e
                 | Inr rows \<Rightarrow> Inr (butlast (tl rows)))))"

text \<open>
  \<^verbatim>\<open>selected_dates = all_time[(all_time.year >= 2003) & (all_time.year <= 2023)]\<close>.
\<close>

definition selected_dates_of :: "date list \<Rightarrow> date list" where
  "selected_dates_of lai_time =
     filter (\<lambda>d. 2003 \<le> fst d \<and> fst d \<le> 2023) (all_tsteps lai_time)"

text \<open>
  \<^verbatim>\<open>check_data_availability_LAI(filled_lai, lai_time)\<close>. The result is \<open>Inl\<close> an exception,
  \<open>Inr (Some (matrix, dates))\<close> a returned pair, or \<open>Inr None\<close> when control reaches the
  end of the function body with no \<^verbatim>\<open>return\<close>, which in Python returns \<^verbatim>\<open>None\<close>.
  The outer test is on \<^verbatim>\<open>len(np.isnan(selected_lai).flatten())\<close>, the number of cells.
\<close>

definition check_data_availability_LAI ::
    "cell list \<Rightarrow> date list \<Rightarrow> error + (grid \<times> date list) option" where
  "check_data_availability_LAI filled_lai lai_time =
     (case selected_lai_of filled_lai lai_time of
        Inl e \<Rightarrow> Inl e
      | Inr selected_lai \<Rightarrow>
          (let selected_dates = selected_dates_of lai_time
           in if 0 < length (concat (isnan selected_lai)) then
                (let selected_lai_flatten = concat selected_lai;
                     positions = filter (\<lambda>i. selected_lai_flatten ! i = None)
                                   [0..<length selected_lai_flatten]
                 in if 0 < length positions then
                      (case fill_gaps selected_lai_flatten positions of
                         Inl e \<Rightarrow> Inl e
                       | Inr flat \<Rightarrow>
                           (case reshape 46 flat of
                              Inl e \<Rightarrow> Inl e
                            | Inr gap_free_lai \<Rightarrow> Inr (Some (gap_free_lai, selected_dates))))
                    else Inr None)
              else Inr (Some (selected_lai, selected_dates))))"

section \<open>Climatology smoother\<close>

text \<open>
  \<^verbatim>\<open>np.mean\<close> of a slice: NaN when the slice is empty or holds a NaN.
\<close>

definition np_mean :: "cell list \<Rightarrow> cell" where
  "np_mean xs =
     (if xs = [] \<or> None \<in> set xs then None
      else Some (sum_list (present xs) / real (length xs)))"

text \<open>\<^verbatim>\<open>rolling_mean(array, window)\<close>; \<^verbatim>\<open>array[start_index:end_index]\<close> is the slice.\<close>

definition rolling_mean :: "cell list \<Rightarrow> nat \<Rightarrow> cell list" where
  "rolling_mean array window =
     map (\<lambda>i.
            (let start_index = nat (max 0 (int i - int (window div 2)));
                 end_index = min (length array) (i + (window + 1) div 2)
             in np_mean (take (end_index - start_index) (drop start_index array))))
         [0..<length array]"

text \<open>
  \<^verbatim>\<open>np.nanmean(a, axis=0)\<close> of a 2-D array, whose rows all have the length of the first;
  the mean of a column that is missing in every row is NaN (with a warning, no
  exception). An array without rows still has its number of columns in numpy, and as
  many NaN for means; the list of rows does not hold that number and the model has the
  empty profile there. The smoother raises ValueError on either: the filter below finds
  a NaN among the first values in numpy, and too short a profile in the model.
\<close>

definition column_means :: "grid \<Rightarrow> cell list" where
  "column_means a =
     (case a of [] \<Rightarrow> []
      | r # _ \<Rightarrow> map (\<lambda>c. nanmean (map (\<lambda>row. row ! c) a)) [0..<length r])"

text \<open>
  The sum and the difference of two floats are the exact sum and difference rounded to
  the nearest float. In the sum that ends the smoother, and in the subtraction that is
  meant to undo it, the rounding is written out: \<open>fl\<close>, which maps a real number to the
  float that stands for it, is a parameter of the model. NaN in either operand gives
  NaN.
\<close>

definition fl_add :: "(real \<Rightarrow> real) \<Rightarrow> cell \<Rightarrow> cell \<Rightarrow> cell" where
  "fl_add fl a b = map_option fl (nan_add a b)"

definition fl_sub :: "(real \<Rightarrow> real) \<Rightarrow> cell \<Rightarrow> cell \<Rightarrow> cell" where
  "fl_sub fl a b = map_option fl (nan_sub a b)"

text \<open>
  The sum of two 1-D arrays: elementwise for equal lengths, an array of length one is
  broadcast, and any other pair of lengths raises ValueError.
\<close>

definition np_add :: "(real \<Rightarrow> real) \<Rightarrow> cell list \<Rightarrow> cell list \<Rightarrow> error + cell list" where
  "np_add fl a b =
     (if length a = length b then Inr (map2 (fl_add fl) a b)
      else if length b = 1 then Inr (map (\<lambda>x. fl_add fl x (hd b)) a)
      else if length a = 1 then Inr (map (\<lambda>y. fl_add fl (hd a) y) b)
      else Inl ValueError)"

text \<open>
  \<^verbatim>\<open>scipy.signal.savgol_filter(x, window_length, polyorder)\<close>, in its default mode
  \<^verbatim>\<open>interp\<close>, is library code. The filtered profile is the parameter \<open>sg\<close> of the
  model, a function of the window length, of the polynomial order and of the data, and
  the errors that the library raises are written out. It raises ValueError when the
  order is not below the window length and when the window is longer than the data. It
  fits a polynomial by least squares to the first \<^verbatim>\<open>window_length\<close> values and to the
  last ones, and that fit raises ValueError when one of them is NaN. A NaN further
  inside raises nothing: it spreads to the outputs around it, which is for \<open>sg\<close> to
  return. The pipeline calls the filter with the window 13 and the order 3.
\<close>

type_synonym savgol = "nat \<Rightarrow> nat \<Rightarrow> cell list \<Rightarrow> cell list"

definition savgol_filter :: "savgol \<Rightarrow> cell list \<Rightarrow> nat \<Rightarrow> nat \<Rightarrow> error + cell list" where
  "savgol_filter sg x window_length polyorder =
     (if window_length \<le> polyorder \<or> length x < window_length then Inl ValueError
      else if None \<in> set (take window_length x)
              \<or> None \<in> set (drop (length x - window_length) x) then Inl ValueError
      else Inr (sg window_length polyorder x))"

text \<open>\<^verbatim>\<open>anomaly = gap_free_lai - column_means\<close>, the means broadcast over the rows.\<close>

definition anomaly_of :: "grid \<Rightarrow> grid" where
  "anomaly_of gap_free_lai =
     map (\<lambda>row. map2 nan_sub row (column_means gap_free_lai)) gap_free_lai"

text \<open>
  \<^verbatim>\<open>smoothing_LAI(gap_free_lai)\<close>; \<^verbatim>\<open>np.tile\<close> repeats the filtered means once per row of the
  anomaly.
\<close>

definition smoothing_LAI :: "(real \<Rightarrow> real) \<Rightarrow> savgol \<Rightarrow> grid \<Rightarrow> error + cell list" where
  "smoothing_LAI fl sg gap_free_lai =
     (case savgol_filter sg (column_means gap_free_lai) 13 3 of
        Inl e \<Rightarrow> Inl e
      | Inr smoothed_column_means \<Rightarrow>
          (let anomaly = anomaly_of gap_free_lai;
               anomaly_rolling = rolling_mean (concat anomaly) 13
           in np_add fl anomaly_rolling
                (concat (replicate (length anomaly) smoothed_column_means))))"

section \<open>Pixel selector\<close>

text \<open>
  The three tables read by \<^verbatim>\<open>get_LAI\<close>, one row per pixel and date, and the part of
  \<^verbatim>\<open>get_LAI\<close> that builds the three grids and the timestamps from them.
\<close>

record pixel_row =
  pixel :: int
  calendar_date :: date
  val :: cell
  scale :: cell

definition pixel_no :: "int list" where
  "pixel_no = [7, 8, 9, 12, 13, 14, 17, 18, 19]"

text \<open>
  \<^verbatim>\<open>a[:, idx] = v\<close> for an array of \<open>n\<close> rows: \<open>v\<close> has \<open>n\<close> entries, or one entry
  that is broadcast; anything else raises ValueError.
\<close>

definition assign_column :: "nat \<Rightarrow> cell list \<Rightarrow> error + cell list" where
  "assign_column n v =
     (if length v = n then Inr v
      else if length v = 1 then Inr (replicate n (hd v))
      else Inl ValueError)"

text \<open>
  \<^verbatim>\<open>t.loc[t['pixel'] == p, 'value'].values[:n] * t.loc[t['pixel'] == p, 'scale'].values[0]\<close>:
  the scale is that of the pixel's first row, and IndexError when the pixel has no row.
\<close>

definition scaled_column :: "pixel_row list \<Rightarrow> int \<Rightarrow> nat \<Rightarrow> error + cell list" where
  "scaled_column t p n =
     (case filter (\<lambda>r. pixel r = p) t of
        [] \<Rightarrow> Inl IndexError
      | r0 # rs \<Rightarrow> assign_column n (map (\<lambda>r. nan_mul (val r) (scale r0)) (take n (r0 # rs))))"

definition raw_column :: "pixel_row list \<Rightarrow> int \<Rightarrow> nat \<Rightarrow> error + cell list" where
  "raw_column t p n = assign_column n (map val (take n (filter (\<lambda>r. pixel r = p) t)))"

fun select_columns ::
    "pixel_row list \<Rightarrow> pixel_row list \<Rightarrow> pixel_row list \<Rightarrow> nat \<Rightarrow> int list
      \<Rightarrow> error + (cell list \<times> cell list \<times> cell list) list" where
  "select_columns lai sd qc n [] = Inr []"
| "select_columns lai sd qc n (p # ps) =
     (case scaled_column lai p n of
        Inl e \<Rightarrow> Inl e
      | Inr l \<Rightarrow>
          (case scaled_column sd p n of
             Inl e \<Rightarrow> Inl e
           | Inr s \<Rightarrow>
               (case raw_column qc p n of
                  Inl e \<Rightarrow> Inl e
                | Inr q \<Rightarrow>
                    (case select_columns lai sd qc n ps of
                       Inl e \<Rightarrow> Inl e
                     | Inr rest \<Rightarrow> Inr ((l, s, q) # rest)))))"

definition from_columns :: "nat \<Rightarrow> cell list list \<Rightarrow> grid" where
  "from_columns n cols = map (\<lambda>t. map (\<lambda>col. col ! t) cols) [0..<n]"

record selection =
  lai_pixel :: grid
  sd_pixel :: grid
  qc_pixel :: grid
  lai_time :: "date list"

text \<open>
  \<^verbatim>\<open>no_tsteps = min(len(lai), len(sd), len(qc)) // max(lai['pixel'])\<close>: \<^verbatim>\<open>max\<close> of an
  empty column raises ValueError, a zero divisor ZeroDivisionError, and \<^verbatim>\<open>np.full\<close> with
  a negative number of rows ValueError.
\<close>

definition no_tsteps_of :: "pixel_row list \<Rightarrow> pixel_row list \<Rightarrow> pixel_row list \<Rightarrow> int" where
  "no_tsteps_of lai sd qc =
     int (min (length lai) (min (length sd) (length qc))) div max_list_int (map pixel lai)"

definition get_LAI_grids ::
    "pixel_row list \<Rightarrow> pixel_row list \<Rightarrow> pixel_row list \<Rightarrow> error + selection" where
  "get_LAI_grids lai sd qc =
     (if lai = [] then Inl ValueError
      else if max_list_int (map pixel lai) = 0 then Inl ZeroDivisionError
      else if no_tsteps_of lai sd qc < 0 then Inl ValueError
      else
        (let no_tsteps = nat (no_tsteps_of lai sd qc)
         in case select_columns lai sd qc no_tsteps pixel_no of
              Inl e \<Rightarrow> Inl e
            | Inr cols \<Rightarrow>
                Inr \<lparr>lai_pixel = from_columns no_tsteps (map fst cols),
                     sd_pixel = from_columns no_tsteps (map (\<lambda>c. fst (snd c)) cols),
                     qc_pixel = from_columns no_tsteps (map (\<lambda>c. snd (snd c)) cols),
                     lai_time = map calendar_date (filter (\<lambda>r. pixel r = hd pixel_no) lai)\<rparr>))"

section \<open>The keep-mask and the weights, cell by cell\<close>

text \<open>
  The three conditions of the keep-mask on one cell (a comparison with a missing value
  is false), and the mask itself.
\<close>

definition qc_ok :: "cell \<Rightarrow> bool" where
  "qc_ok q = (case q of None \<Rightarrow> False | Some v \<Rightarrow> v \<in> set qc_flags)"

definition sd_ok :: "cell \<Rightarrow> bool" where
  "sd_ok s = (case s of None \<Rightarrow> False | Some v \<Rightarrow> 1 / 10 \<le> v)"

definition lai_ok :: "cell \<Rightarrow> bool" where
  "lai_ok l = (case l of None \<Rightarrow> False | Some v \<Rightarrow> v \<le> 10)"

definition keep :: "cell \<Rightarrow> cell \<Rightarrow> cell \<Rightarrow> bool" where
  "keep l s q = (qc_ok q \<and> sd_ok s \<and> lai_ok l)"

text \<open>
  The two arrays that \<^const>\<open>get_spatial_weighted_LAI\<close> leaves behind, and the weights
  of one row of the masked standard deviations, named for the proofs.
\<close>

definition sd_masked :: "grid \<Rightarrow> grid \<Rightarrow> grid" where
  "sd_masked sd qc =
     (let sd1 = assign_nan (invert (isin qc qc_flags)) sd
      in assign_nan (less_than sd1 (1 / 10)) sd1)"

definition lai_masked :: "grid \<Rightarrow> grid \<Rightarrow> grid \<Rightarrow> grid" where
  "lai_masked lai sd qc =
     (let lai1 = assign_nan (invert (isin qc qc_flags)) lai;
          lai2 = assign_nan (isnan (sd_masked sd qc)) lai1
      in assign_nan (greater_than lai2 10) lai2)"

definition row_weights :: "cell list \<Rightarrow> cell list" where
  "row_weights sd_row =
     (let inv_var = map (\<lambda>s. nan_div (Some 1) (nan_mul s s)) sd_row
      in map (\<lambda>v. nan_div v (Some (nansum inv_var))) inv_var)"

section \<open>The climatology smoother in the words of the spec\<close>

text \<open>
  The spec describes the smoother entry by entry. For a matrix \<open>m\<close> of \<open>w\<close> calendar
  slots per year: the mean of slot \<open>c\<close> over the years, ignoring missing values; entry
  \<open>j\<close> of the flattened anomaly, the matrix minus the raw slot means; the average of
  the entries \<open>lo\<close> through \<open>hi\<close> of a sequence (missing when one of them is); and the
  output at \<open>i\<close>, the average of the anomaly over \<open>max(0, i - 6)\<close> through
  \<open>min(n - 1, i + 6)\<close> plus the slot means, filtered with the window 13 and the order
  3, at the slot of \<open>i\<close>. On natural numbers \<open>i - 6\<close> is \<open>max(0, i - 6)\<close>.
\<close>

definition cell_value :: "cell \<Rightarrow> real" where
  "cell_value c = (case c of None \<Rightarrow> 0 | Some v \<Rightarrow> v)"

definition slot_mean :: "grid \<Rightarrow> nat \<Rightarrow> cell" where
  "slot_mean m c = nanmean (map (\<lambda>row. row ! c) m)"

definition anomaly_at :: "grid \<Rightarrow> nat \<Rightarrow> nat \<Rightarrow> cell" where
  "anomaly_at m w j = nan_sub (m ! (j div w) ! (j mod w)) (slot_mean m (j mod w))"

definition window_average :: "(nat \<Rightarrow> cell) \<Rightarrow> nat \<Rightarrow> nat \<Rightarrow> cell" where
  "window_average f lo hi =
     (if list_ex (\<lambda>j. f j = None) [lo..<Suc hi] then None
      else Some (sum_list (map (\<lambda>j. cell_value (f j)) [lo..<Suc hi]) / real (Suc hi - lo)))"

definition smoothed_entry :: "(real \<Rightarrow> real) \<Rightarrow> savgol \<Rightarrow> grid \<Rightarrow> nat \<Rightarrow> nat \<Rightarrow> cell" where
  "smoothed_entry fl sg m w i =
     fl_add fl (window_average (anomaly_at m w) (i - 6) (min (length m * w - 1) (i + 6)))
               (sg 13 3 (map (slot_mean m) [0..<w]) ! (i mod w))"

text \<open>
  A slot is observed when some year has a value in it, and the edge slots are the first
  13 and the last 13 of the \<open>w\<close> slots of a year.
\<close>

definition observed_slot :: "grid \<Rightarrow> nat \<Rightarrow> bool" where
  "observed_slot m c = list_ex (\<lambda>row. row ! c \<noteq> None) m"

definition edge_slots_observed :: "grid \<Rightarrow> nat \<Rightarrow> bool" where
  "edge_slots_observed m w = list_all (observed_slot m) ([0..<13] @ [w - 13..<w])"

text \<open>
  The round trip of the spec's test: the smoother's output minus the raw slot means,
  tiled once per year.
\<close>

definition round_trip :: "(real \<Rightarrow> real) \<Rightarrow> savgol \<Rightarrow> grid \<Rightarrow> error + cell list" where
  "round_trip fl sg m =
     (case smoothing_LAI fl sg m of
        Inl e \<Rightarrow> Inl e
      | Inr smoothed_lai \<Rightarrow>
          Inr (map2 (fl_sub fl) smoothed_lai
                 (concat (replicate (length m) (column_means m)))))"

section \<open>The pixel selector in the words of the spec\<close>

text \<open>
  The rows of one pixel in a table, in the order of the table; the number of time steps
  as the spec words it, the common number of observations divided by the number of
  distinct pixels present; and a small table of the nine selected pixels with three
  dates each.
\<close>

definition pixel_rows :: "pixel_row list \<Rightarrow> int \<Rightarrow> pixel_row list" where
  "pixel_rows t p = filter (\<lambda>r. pixel r = p) t"

definition claimed_no_tsteps :: "pixel_row list \<Rightarrow> pixel_row list \<Rightarrow> pixel_row list \<Rightarrow> nat" where
  "claimed_no_tsteps lai sd qc =
     min (length lai) (min (length sd) (length qc)) div length (remdups (map pixel lai))"

definition nine_pixel_table :: "pixel_row list" where
  "nine_pixel_table =
     concat (map (\<lambda>k. map (\<lambda>p. \<lparr>pixel = p, calendar_date = (2003, 1 + 8 * k),
                                   val = Some (real_of_int p + real k),
                                   scale = Some (1 / 10)\<rparr>) pixel_no) [0..<3])"

section \<open>The weighted mean in the words of the spec\<close>

text \<open>
  For one row of LAI values and standard deviations that are all present: the weights
  \<open>1/\<sigma>\<^sup>2\<close> normalised to sum to 1, and the sum of weight times value.
\<close>

definition inverse_variance :: "cell \<Rightarrow> real" where
  "inverse_variance s = 1 / (cell_value s * cell_value s)"

definition weighted_mean :: "cell list \<Rightarrow> cell list \<Rightarrow> real" where
  "weighted_mean lai_row sd_row =
     sum_list (map2 (\<lambda>l s. inverse_variance s / sum_list (map inverse_variance sd_row)
                              * cell_value l) lai_row sd_row)"

section \<open>Shapes and cells of the masked arrays\<close>

lemma shape_length: "map length a = map length b \<Longrightarrow> length a = length b"
  by (metis length_map)

lemma shape_row:
  "map length a = map length b \<Longrightarrow> r < length b \<Longrightarrow> length (a ! r) = length (b ! r)"
  by (metis length_map nth_map)

lemma shape_assign_nan:
  "map length m = map length a \<Longrightarrow> map length (assign_nan m a) = map length a"
proof (rule nth_equalityI)
  assume s: "map length m = map length a"
  then have l: "length m = length a" by (rule shape_length)
  show "length (map length (assign_nan m a)) = length (map length a)"
    by (simp add: assign_nan_def l)
  fix i assume "i < length (map length (assign_nan m a))"
  then have i: "i < length a" by (simp add: assign_nan_def l)
  then show "map length (assign_nan m a) ! i = map length a ! i"
    using shape_row [OF s i] by (simp add: assign_nan_def l)
qed

lemma nth_assign_nan:
  assumes s: "map length m = map length a" and r: "r < length a" and c: "c < length (a ! r)"
  shows "assign_nan m a ! r ! c = (if m ! r ! c then None else a ! r ! c)"
proof -
  have l: "length m = length a" using s by (rule shape_length)
  have lr: "length (m ! r) = length (a ! r)" using s r by (rule shape_row)
  show ?thesis using r c by (simp add: assign_nan_def l lr)
qed

lemma shape_isin [simp]: "map length (isin a vs) = map length a"
  by (simp add: isin_def comp_def)

lemma shape_invert [simp]: "map length (invert m) = map length m"
  by (simp add: invert_def comp_def)

lemma shape_less_than [simp]: "map length (less_than a t) = map length a"
  by (simp add: less_than_def comp_def)

lemma shape_greater_than [simp]: "map length (greater_than a t) = map length a"
  by (simp add: greater_than_def comp_def)

lemma shape_isnan [simp]: "map length (isnan a) = map length a"
  by (simp add: isnan_def comp_def)

lemma nth_invert_isin:
  "r < length a \<Longrightarrow> c < length (a ! r) \<Longrightarrow>
   invert (isin a qc_flags) ! r ! c = (\<not> qc_ok (a ! r ! c))"
  by (simp add: invert_def isin_def qc_ok_def)

lemma nth_less_than:
  "r < length a \<Longrightarrow> c < length (a ! r) \<Longrightarrow>
   less_than a t ! r ! c = (case a ! r ! c of None \<Rightarrow> False | Some v \<Rightarrow> v < t)"
  by (simp add: less_than_def)

lemma nth_greater_than:
  "r < length a \<Longrightarrow> c < length (a ! r) \<Longrightarrow>
   greater_than a t ! r ! c = (case a ! r ! c of None \<Rightarrow> False | Some v \<Rightarrow> t < v)"
  by (simp add: greater_than_def)

lemma nth_isnan:
  "r < length a \<Longrightarrow> c < length (a ! r) \<Longrightarrow> isnan a ! r ! c = (a ! r ! c = None)"
  by (simp add: isnan_def)

text \<open>
  With three arrays of one shape the aggregator returns, and its result is made of the
  masked arrays.
\<close>

lemma get_spatial_weighted_LAI_Inr:
  assumes "map length lai = map length qc" "map length sd = map length qc"
  shows "get_spatial_weighted_LAI lai sd qc =
           Inr \<lparr>lai_after = lai_masked lai sd qc, sd_after = sd_masked sd qc, qc_after = qc,
                weighted_lai = map2 (\<lambda>l s. nanmean (map2 nan_mul l (row_weights s)))
                                 (lai_masked lai sd qc) (sd_masked sd qc)\<rparr>"
  using assms
  by (simp add: get_spatial_weighted_LAI_def lai_masked_def sd_masked_def Let_def row_weights_def
      zip_map2 map_zip_map2 split_def)

lemma shape_sd_masked:
  "map length sd = map length qc \<Longrightarrow> map length (sd_masked sd qc) = map length qc"
  by (simp add: sd_masked_def Let_def shape_assign_nan)

lemma shape_lai_masked:
  "map length lai = map length qc \<Longrightarrow> map length sd = map length qc \<Longrightarrow>
   map length (lai_masked lai sd qc) = map length qc"
  by (simp add: lai_masked_def Let_def shape_assign_nan shape_sd_masked)

lemma nth_sd_masked:
  assumes s: "map length sd = map length qc" and r: "r < length qc" and c: "c < length (qc ! r)"
  shows "sd_masked sd qc ! r ! c =
           (if qc_ok (qc ! r ! c) \<and> sd_ok (sd ! r ! c) then sd ! r ! c else None)"
proof -
  have l: "length sd = length qc" using s by (rule shape_length)
  have lr: "length (sd ! r) = length (qc ! r)" using s r by (rule shape_row)
  let ?sd1 = "assign_nan (invert (isin qc qc_flags)) sd"
  have s1: "map length ?sd1 = map length sd" by (simp add: shape_assign_nan s)
  have n1: "?sd1 ! r ! c = (if qc_ok (qc ! r ! c) then sd ! r ! c else None)"
    using r c by (simp add: nth_assign_nan s l lr nth_invert_isin)
  have r1: "r < length ?sd1" using s1 r l by (metis length_map)
  have c1: "c < length (?sd1 ! r)" using shape_row [OF s1, of r] r l c lr by simp
  have "sd_masked sd qc ! r ! c = (if less_than ?sd1 (1/10) ! r ! c then None else ?sd1 ! r ! c)"
    unfolding sd_masked_def Let_def using r1 c1 by (simp add: nth_assign_nan)
  then show ?thesis using r1 c1 n1
    by (auto simp: nth_less_than sd_ok_def split: option.splits)
qed

lemma nth_lai_masked:
  assumes sl: "map length lai = map length qc" and s: "map length sd = map length qc"
    and r: "r < length qc" and c: "c < length (qc ! r)"
  shows "lai_masked lai sd qc ! r ! c =
           (if keep (lai ! r ! c) (sd ! r ! c) (qc ! r ! c) then lai ! r ! c else None)"
proof -
  have l: "length lai = length qc" using sl by (rule shape_length)
  have lr: "length (lai ! r) = length (qc ! r)" using sl r by (rule shape_row)
  let ?lai1 = "assign_nan (invert (isin qc qc_flags)) lai"
  let ?lai2 = "assign_nan (isnan (sd_masked sd qc)) ?lai1"
  have s1: "map length ?lai1 = map length lai" by (simp add: shape_assign_nan sl)
  have r1: "r < length ?lai1" using s1 r l by (metis length_map)
  have c1: "c < length (?lai1 ! r)" using shape_row [OF s1, of r] r l c lr by simp
  have n1: "?lai1 ! r ! c = (if qc_ok (qc ! r ! c) then lai ! r ! c else None)"
    using r c by (simp add: nth_assign_nan sl l lr nth_invert_isin)
  have s2: "map length ?lai2 = map length lai"
    by (simp add: shape_assign_nan shape_sd_masked s s1 sl)
  have r2: "r < length ?lai2" using s2 r l by (metis length_map)
  have c2: "c < length (?lai2 ! r)" using shape_row [OF s2, of r] r l c lr by simp
  have rs: "r < length (sd_masked sd qc)" using shape_sd_masked [OF s] r by (metis length_map)
  have cs: "c < length (sd_masked sd qc ! r)"
    using shape_row [OF shape_sd_masked [OF s], of r] r c by simp
  have n2: "?lai2 ! r ! c = (if sd_masked sd qc ! r ! c = None then None else ?lai1 ! r ! c)"
    using r1 c1 rs cs by (simp add: nth_assign_nan shape_sd_masked s s1 sl nth_isnan)
  have "lai_masked lai sd qc ! r ! c =
          (if greater_than ?lai2 10 ! r ! c then None else ?lai2 ! r ! c)"
    unfolding lai_masked_def Let_def using r2 c2 by (simp add: nth_assign_nan)
  then show ?thesis using r2 c2 n1 n2 nth_sd_masked [OF s r c]
    by (auto simp: nth_greater_than keep_def sd_ok_def lai_ok_def split: option.splits)
qed

lemma present_eq_Nil: "present xs = [] \<longleftrightarrow> (\<forall>c\<in>set xs. c = None)"
  by (induction xs) (auto simp: present_def List.map_filter_simps split: option.splits)

lemma nanmean_None: "nanmean xs = None \<longleftrightarrow> (\<forall>c\<in>set xs. c = None)"
  by (simp add: nanmean_def present_eq_Nil)

lemma nth_weighted:
  assumes sl: "map length lai = map length qc" and s: "map length sd = map length qc"
    and r: "r < length qc"
  shows "map2 (\<lambda>l s. nanmean (map2 nan_mul l (row_weights s)))
            (lai_masked lai sd qc) (sd_masked sd qc) ! r
         = nanmean (map2 nan_mul (lai_masked lai sd qc ! r) (row_weights (sd_masked sd qc ! r)))"
proof -
  have "length (lai_masked lai sd qc) = length qc"
    using shape_lai_masked [OF sl s] by (rule shape_length)
  moreover have "length (sd_masked sd qc) = length qc"
    using shape_sd_masked [OF s] by (rule shape_length)
  ultimately show ?thesis using r by simp
qed

lemma masked_row_missing:
  assumes sl: "map length lai = map length qc" and s: "map length sd = map length qc"
    and r: "r < length qc"
    and m: "\<forall>c<length (qc ! r). \<not> keep (lai ! r ! c) (sd ! r ! c) (qc ! r ! c)"
  shows "nanmean (map2 nan_mul (lai_masked lai sd qc ! r) (row_weights (sd_masked sd qc ! r)))
           = None"
proof -
  have lr: "length (lai_masked lai sd qc ! r) = length (qc ! r)"
    using shape_row [OF shape_lai_masked [OF sl s] r] .
  have "\<forall>c<length (qc ! r). lai_masked lai sd qc ! r ! c = None"
    using m by (simp add: nth_lai_masked [OF sl s r])
  then have "\<forall>x\<in>set (lai_masked lai sd qc ! r). x = None"
    using lr by (metis in_set_conv_nth)
  then have "\<forall>p\<in>set (zip (lai_masked lai sd qc ! r) (row_weights (sd_masked sd qc ! r))).
               fst p = None"
    by (metis set_zip_leftD prod.collapse)
  then show ?thesis
    by (auto simp: nanmean_None)
qed

text \<open>
  The divisor of the weights is positive as soon as one inverse variance of the row is
  not missing, so that no weight is a quotient by zero.
\<close>

lemma nansum_inv_var_pos:
  assumes "Some v \<in> set inv_var"
    and "\<forall>c\<in>set inv_var. case c of None \<Rightarrow> True | Some x \<Rightarrow> 0 < x"
  shows "0 < nansum inv_var"
  using assms
proof (induction inv_var)
  case Nil
  then show ?case by simp
next
  case (Cons c cs)
  have nonneg: "0 \<le> nansum cs"
    using Cons.prems(2) unfolding nansum_def
    by (intro sum_list_nonneg) (force split: option.splits intro: less_imp_le)
  show ?case
  proof (cases "Some v \<in> set cs")
    case True
    then have "0 < nansum cs" using Cons by simp
    moreover have "0 \<le> (case c of None \<Rightarrow> 0 | Some x \<Rightarrow> x)"
      using Cons.prems(2) by (auto split: option.splits intro: less_imp_le)
    ultimately show ?thesis by (simp add: nansum_def)
  next
    case False
    then have "c = Some v" using Cons.prems(1) by simp
    moreover have "0 < v" using Cons.prems(2) \<open>c = Some v\<close> by simp
    ultimately show ?thesis using nonneg by (simp add: nansum_def)
  qed
qed

text \<open>
  In a row of the masked standard deviations every cell is missing or at least 0.1, so
  every inverse variance that is not missing is positive.
\<close>

lemma sd_masked_cells:
  assumes s: "map length sd = map length qc" and r: "r < length qc"
    and c: "c \<in> set (sd_masked sd qc ! r)"
  shows "c = None \<or> sd_ok c"
proof -
  have lr: "length (sd_masked sd qc ! r) = length (qc ! r)"
    using shape_row [OF shape_sd_masked [OF s] r] .
  from c obtain i where i: "i < length (qc ! r)" and ci: "c = sd_masked sd qc ! r ! i"
    using lr by (metis in_set_conv_nth)
  show ?thesis unfolding ci nth_sd_masked [OF s r i] by simp
qed

lemma inv_var_pos:
  assumes "\<forall>c\<in>set sd_row. c = None \<or> sd_ok c"
  shows "\<forall>c\<in>set (map (\<lambda>s. nan_div (Some 1) (nan_mul s s)) sd_row).
           case c of None \<Rightarrow> True | Some x \<Rightarrow> 0 < x"
proof
  fix c assume "c \<in> set (map (\<lambda>s. nan_div (Some 1) (nan_mul s s)) sd_row)"
  then obtain s where s: "s \<in> set sd_row" and c: "c = nan_div (Some 1) (nan_mul s s)" by auto
  show "case c of None \<Rightarrow> True | Some x \<Rightarrow> 0 < x"
  proof (cases s)
    case None
    then show ?thesis by (simp add: c)
  next
    case (Some v)
    then have "1 / 10 \<le> v" using assms s by (auto simp: sd_ok_def)
    then have "0 < v * v" by simp
    then show ?thesis by (simp add: c Some)
  qed
qed

text \<open>
  A row whose cells all pass the keep-mask: the masks change nothing, the weights are the
  normalised inverse variances, and the row's result is the mean of the products.
\<close>

lemma present_dense: "None \<notin> set ys \<Longrightarrow> present ys = map cell_value ys"
proof (induction ys)
  case Nil
  then show ?case by (simp add: present_def List.map_filter_simps)
next
  case (Cons a ys)
  then obtain v where a: "a = Some v" by (cases a) auto
  have "present ys = map cell_value ys" using Cons by simp
  then show ?case
    by (simp add: a present_def cell_value_def List.map_filter_simps)
qed

lemma nanmean_dense:
  "xs \<noteq> [] \<Longrightarrow> None \<notin> set xs \<Longrightarrow>
   nanmean xs = Some (sum_list (map cell_value xs) / real (length xs))"
  by (simp add: nanmean_def present_dense)

lemma nansum_cell_value: "nansum xs = sum_list (map cell_value xs)"
  by (simp add: nansum_def cell_value_def [abs_def])

lemma sd_ok_value:
  assumes "sd_ok s"
  obtains v where "s = Some v" and "1 / 10 \<le> v"
  using assms by (cases s) (simp_all add: sd_ok_def)

lemma inverse_variance_kept:
  assumes "sd_ok s"
  shows "nan_div (Some 1) (nan_mul s s) = Some (inverse_variance s)" and "0 < inverse_variance s"
proof -
  from assms obtain v where s: "s = Some v" and v: "1 / 10 \<le> v" by (rule sd_ok_value)
  then have "0 < v" by simp
  then show "nan_div (Some 1) (nan_mul s s) = Some (inverse_variance s)"
    and "0 < inverse_variance s"
    by (simp_all add: s inverse_variance_def cell_value_def)
qed

lemma sum_inverse_variance_pos:
  assumes "\<forall>s\<in>set sd_row. sd_ok s" and "sd_row \<noteq> []"
  shows "0 < sum_list (map inverse_variance sd_row)"
  using assms
proof (induction sd_row)
  case Nil
  then show ?case by simp
next
  case (Cons a sd_row)
  have a: "0 < inverse_variance a" using Cons.prems(1) by (simp add: inverse_variance_kept(2))
  show ?case
  proof (cases "sd_row = []")
    case True
    then show ?thesis using a by simp
  next
    case False
    then have "0 < sum_list (map inverse_variance sd_row)" using Cons by simp
    then show ?thesis using a by simp
  qed
qed

lemma row_weights_kept:
  assumes sd: "\<forall>s\<in>set sd_row. sd_ok s" and ne: "sd_row \<noteq> []"
  shows "row_weights sd_row =
           map (\<lambda>s. Some (inverse_variance s / sum_list (map inverse_variance sd_row))) sd_row"
proof -
  have inv: "map (\<lambda>s. nan_div (Some 1) (nan_mul s s)) sd_row
               = map (\<lambda>s. Some (inverse_variance s)) sd_row"
    using sd by (simp add: inverse_variance_kept(1))
  have sum: "nansum (map (\<lambda>s. Some (inverse_variance s)) sd_row)
               = sum_list (map inverse_variance sd_row)"
    by (simp add: nansum_cell_value comp_def cell_value_def)
  have "sum_list (map inverse_variance sd_row) \<noteq> 0"
    using sum_inverse_variance_pos [OF sd ne] by simp
  then show ?thesis
    unfolding row_weights_def Let_def inv sum by (simp add: comp_def)
qed

lemma products_kept:
  "length ls = length ss \<Longrightarrow> None \<notin> set ls \<Longrightarrow>
   map2 nan_mul ls (map (\<lambda>s. Some (f s)) ss)
     = map Some (map2 (\<lambda>l s. f s * cell_value l) ls ss)"
proof (induction ls ss rule: list_induct2)
  case Nil
  then show ?case by simp
next
  case (Cons l ls s ss)
  then obtain v where "l = Some v" by (cases l) auto
  then show ?case using Cons by (simp add: cell_value_def)
qed

lemma nanmean_Some:
  "ys \<noteq> [] \<Longrightarrow> nanmean (map Some ys) = Some (sum_list ys / real (length ys))"
  by (simp add: nanmean_dense comp_def cell_value_def)

lemma row_output_kept:
  assumes sd: "\<forall>s\<in>set sd_row. sd_ok s" and lai: "None \<notin> set lai_row"
    and len: "length lai_row = length sd_row" and ne: "sd_row \<noteq> []"
  shows "nanmean (map2 nan_mul lai_row (row_weights sd_row))
           = Some (weighted_mean lai_row sd_row / real (length sd_row))"
proof -
  let ?w = "\<lambda>s. inverse_variance s / sum_list (map inverse_variance sd_row)"
  let ?p = "map2 (\<lambda>l s. ?w s * cell_value l) lai_row sd_row"
  have prod: "map2 nan_mul lai_row (row_weights sd_row) = map Some ?p"
    unfolding row_weights_kept [OF sd ne] using len lai by (rule products_kept)
  have l2: "length ?p = length sd_row" using len by simp
  then have "?p \<noteq> []" using ne by (metis length_0_conv)
  then have "nanmean (map Some ?p) = Some (sum_list ?p / real (length ?p))"
    by (rule nanmean_Some)
  then show ?thesis
    unfolding prod weighted_mean_def l2 .
qed


lemma weights_sum_to_one:
  assumes sd: "\<forall>s\<in>set sd_row. sd_ok s" and ne: "sd_row \<noteq> []"
  shows "sum_list (map cell_value (row_weights sd_row)) = 1"
proof -
  let ?S = "sum_list (map inverse_variance sd_row)"
  have S: "?S \<noteq> 0" using sum_inverse_variance_pos [OF sd ne] by simp
  have "sum_list (map cell_value (row_weights sd_row))
          = sum_list (map (\<lambda>s. inverse_variance s * inverse ?S) sd_row)"
    unfolding row_weights_kept [OF sd ne] by (simp add: comp_def cell_value_def divide_inverse)
  also have "\<dots> = ?S * inverse ?S" by (rule sum_list_mult_const)
  finally show ?thesis using S by simp
qed

lemma kept_row_unchanged:
  assumes sl: "map length lai = map length qc" and s: "map length sd = map length qc"
    and r: "r < length qc"
    and k: "\<forall>c<length (qc ! r). keep (lai ! r ! c) (sd ! r ! c) (qc ! r ! c)"
  shows "lai_masked lai sd qc ! r = lai ! r" and "sd_masked sd qc ! r = sd ! r"
proof -
  have l1: "length (lai_masked lai sd qc ! r) = length (qc ! r)"
    using shape_row [OF shape_lai_masked [OF sl s] r] .
  have l2: "length (sd_masked sd qc ! r) = length (qc ! r)"
    using shape_row [OF shape_sd_masked [OF s] r] .
  have l3: "length (lai ! r) = length (qc ! r)" using sl r by (rule shape_row)
  have l4: "length (sd ! r) = length (qc ! r)" using s r by (rule shape_row)
  show "lai_masked lai sd qc ! r = lai ! r"
    using k l1 l3 by (intro nth_equalityI) (simp_all add: nth_lai_masked [OF sl s r])
  show "sd_masked sd qc ! r = sd ! r"
    using k l2 l4 by (intro nth_equalityI) (simp_all add: nth_sd_masked [OF s r] keep_def)
qed

section \<open>The interpolator on at least four known points\<close>

lemma length_known_points_le: "length (known_points xs) \<le> length xs"
proof -
  have "length (known_points xs) \<le> length (zip [0..<length xs] xs)"
    unfolding known_points_def List.map_filter_def by (simp del: length_zip)
  then show ?thesis by simp
qed

lemma interpolate_NA_LAI_Inr:
  assumes k: "4 \<le> length (known_points xs)"
  shows "interpolate_NA_LAI cubic xs =
     Inr ((map (\<lambda>i. case xs ! i of None \<Rightarrow> Some (max 0 (cubic (known_points xs) i))
                                 | Some v \<Rightarrow> Some (max 0 v)) [0..<length xs])
            [length xs - 1 := Some 0])"
proof -
  have ne: "xs \<noteq> []" using k length_known_points_le [of xs] by auto
  have "\<not> length (known_points xs) < 4" using k by simp
  then show ?thesis
    using ne
    apply (simp add: interpolate_NA_LAI_def interp1d_def Let_def)
    apply (rule arg_cong [where f = "\<lambda>l. l[length xs - Suc 0 := Some 0]"])
    apply (rule nth_equalityI)
     apply (auto simp: max_def split: option.splits)
    done
qed

lemma interpolate_NA_LAI_Inl:
  "length (known_points xs) < 4 \<Longrightarrow> interpolate_NA_LAI cubic xs = Inl ValueError"
  by (simp add: interpolate_NA_LAI_def interp1d_def)

lemma nth_filled_masked:
  assumes "r < n" and "length w = n" and "w ! r = None"
  shows "(map (\<lambda>i. case w ! i of None \<Rightarrow> Some (max 0 (g i)) | Some v \<Rightarrow> Some (max 0 v))
            [0..<length w]) [length w - 1 := Some 0] ! r
         = (if Suc r = n then Some 0 else Some (max 0 (g r)))"
  using assms by (auto simp: nth_list_update)

text \<open>The known points are as many as the non-missing entries of the series.\<close>

lemma length_map_filter: "length (List.map_filter f xs) = length (filter (\<lambda>x. f x \<noteq> None) xs)"
  by (induction xs) (auto simp: List.map_filter_simps split: option.splits)

lemma length_filter_zip_snd:
  "length xs = length ys \<Longrightarrow>
   length (filter (\<lambda>p. P (snd p)) (zip xs ys)) = length (filter P ys)"
  by (induction xs ys rule: list_induct2) simp_all

lemma length_known_points:
  "length (known_points xs) = length (filter (\<lambda>c. c \<noteq> None) xs)"
proof -
  have "map_option (\<lambda>v. (fst p, v)) (snd p) \<noteq> None \<longleftrightarrow> snd p \<noteq> None" for p :: "nat \<times> cell"
    by simp
  then have "length (known_points xs)
          = length (filter (\<lambda>p. snd p \<noteq> None) (zip [0..<length xs] xs))"
    unfolding known_points_def length_map_filter by (simp only:)
  also have "\<dots> = length (filter (\<lambda>c. c \<noteq> None) xs)"
    by (rule length_filter_zip_snd) simp
  finally show ?thesis .
qed

text \<open>
  The known points are the pairs of an index and the value found there, for the indices
  whose entry is not missing, in increasing order of the index; no other list is.
\<close>

lemma zip_upt_nth: "zip [0..<length xs] xs = map (\<lambda>i. (i, xs ! i)) [0..<length xs]"
  by (rule nth_equalityI) simp_all

lemma known_points_eq:
  "known_points xs
     = map (\<lambda>i. (i, the (xs ! i))) (filter (\<lambda>i. xs ! i \<noteq> None) [0..<length xs])"
proof -
  have "known_points xs
      = List.map_filter (\<lambda>p. map_option (\<lambda>v. (fst p, v)) (snd p))
          (map (\<lambda>i. (i, xs ! i)) [0..<length xs])"
    unfolding known_points_def by (simp only: zip_upt_nth)
  also have "\<dots> = map (\<lambda>i. (i, the (xs ! i))) (filter (\<lambda>i. xs ! i \<noteq> None) [0..<length xs])"
    unfolding List.map_filter_def filter_map by (auto simp: comp_def)
  finally show ?thesis .
qed

lemma map_fst_known_points:
  "map fst (known_points xs) = filter (\<lambda>i. xs ! i \<noteq> None) [0..<length xs]"
  by (simp add: known_points_eq comp_def)

lemma sorted_known_points: "sorted_wrt (<) (map fst (known_points xs))"
  unfolding map_fst_known_points by (rule sorted_wrt_filter) simp

lemma set_known_points:
  "set (known_points xs) = {(i, v). i < length xs \<and> xs ! i = Some v}"
  by (auto simp: known_points_eq)

lemma known_points_unique:
  assumes incr: "sorted_wrt (<) (map fst pts)"
    and pairs: "set pts = {(i, v). i < length xs \<and> xs ! i = Some v}"
  shows "pts = known_points xs"
proof -
  have same: "set pts = set (known_points xs)" using pairs by (simp only: set_known_points)
  have "set (map fst pts) = set (map fst (known_points xs))"
    using same by (simp only: set_map)
  then have idx: "map fst pts = map fst (known_points xs)"
    using strict_sorted_equal [OF sorted_known_points incr] by simp
  have val: "p = (fst p, the (xs ! fst p))" if "p \<in> set pts \<union> set (known_points xs)" for p
    using that pairs same by (cases p) auto
  have rebuild: "map (\<lambda>i. (i, the (xs ! i))) (map fst l) = l"
    if "set l \<subseteq> set pts \<union> set (known_points xs)" for l
  proof -
    have "map (\<lambda>p. (fst p, the (xs ! fst p))) l = l"
    proof (rule map_idI)
      fix p assume "p \<in> set l"
      then have "p \<in> set pts \<union> set (known_points xs)" using that by blast
      then show "(fst p, the (xs ! fst p)) = p" using val [of p] by simp
    qed
    then show ?thesis by (simp add: comp_def)
  qed
  have "pts = map (\<lambda>i. (i, the (xs ! i))) (map fst pts)"
    by (rule rebuild [symmetric]) simp
  also have "\<dots> = map (\<lambda>i. (i, the (xs ! i))) (map fst (known_points xs))"
    by (simp only: idx)
  also have "\<dots> = known_points xs"
    by (rule rebuild) simp
  finally show ?thesis .
qed

section \<open>Claims on the aggregator and the interpolator\<close>

text \<open>
  Claim C1. The spec has the aggregator return, for each row, the sum of weight times
  LAI over the non-missing pixels, the weights being the inverse variances normalised
  to sum to 1, so that nine pixels that all pass the mask with standard deviation 0.5
  and LAI 3.0 give 3.0. The code normalises the weights, which then do sum to 1, and
  takes \<^verbatim>\<open>np.nanmean\<close> of the products, which divides their sum once more by the
  number of contributing pixels: on every row whose pixels all pass the mask it returns
  the weighted mean divided by the number of pixels, and 1/3 on the row of the spec.
\<close>

theorem weighted_lai_divides_by_count:
  assumes sl: "map length lai = map length qc" and s: "map length sd = map length qc"
    and r: "r < length qc" and ne: "qc ! r \<noteq> []"
    and k: "\<forall>c<length (qc ! r). keep (lai ! r ! c) (sd ! r ! c) (qc ! r ! c)"
  shows "\<exists>st. get_spatial_weighted_LAI lai sd qc = Inr st
           \<and> sum_list (map cell_value (row_weights (sd_after st ! r))) = 1
           \<and> weighted_lai st ! r
               = Some (weighted_mean (lai ! r) (sd ! r) / real (length (qc ! r)))"
proof -
  define w where "w = map2 (\<lambda>l s. nanmean (map2 nan_mul l (row_weights s)))
                        (lai_masked lai sd qc) (sd_masked sd qc)"
  define st where "st = \<lparr>lai_after = lai_masked lai sd qc, sd_after = sd_masked sd qc,
                          qc_after = qc, weighted_lai = w\<rparr>"
  have run: "get_spatial_weighted_LAI lai sd qc = Inr st"
    unfolding st_def w_def using sl s by (rule get_spatial_weighted_LAI_Inr)
  have l3: "length (lai ! r) = length (qc ! r)" using sl r by (rule shape_row)
  have l4: "length (sd ! r) = length (qc ! r)" using s r by (rule shape_row)
  have sd_ok: "\<forall>c\<in>set (sd ! r). sd_ok c"
  proof
    fix c assume "c \<in> set (sd ! r)"
    then obtain i where "i < length (qc ! r)" and "c = sd ! r ! i"
      using l4 by (metis in_set_conv_nth)
    then show "sd_ok c" using k by (simp add: keep_def)
  qed
  have lai_ok: "None \<notin> set (lai ! r)"
  proof
    assume "None \<in> set (lai ! r)"
    then obtain i where "i < length (qc ! r)" and "lai ! r ! i = None"
      using l3 by (metis in_set_conv_nth)
    then show False using k by (auto simp: keep_def lai_ok_def)
  qed
  have sne: "sd ! r \<noteq> []" using ne l4 by auto
  have "w ! r = nanmean (map2 nan_mul (lai ! r) (row_weights (sd ! r)))"
    unfolding w_def nth_weighted [OF sl s r] kept_row_unchanged [OF sl s r k] ..
  also have "\<dots> = Some (weighted_mean (lai ! r) (sd ! r) / real (length (sd ! r)))"
    using sd_ok lai_ok _ sne by (rule row_output_kept) (simp add: l3 l4)
  finally have out: "weighted_lai st ! r
      = Some (weighted_mean (lai ! r) (sd ! r) / real (length (qc ! r)))"
    by (simp add: st_def l4)
  have "sum_list (map cell_value (row_weights (sd_after st ! r))) = 1"
    using weights_sum_to_one [OF sd_ok sne]
    by (simp add: st_def kept_row_unchanged(2) [OF sl s r k])
  then show ?thesis using run out by blast
qed


theorem weighted_lai_divides_by_count_witness:
  "get_spatial_weighted_LAI [replicate 9 (Some 3)] [replicate 9 (Some (1 / 2))]
       [replicate 9 (Some 0)]
     = Inr \<lparr>lai_after = [replicate 9 (Some 3)], sd_after = [replicate 9 (Some (1 / 2))],
            qc_after = [replicate 9 (Some 0)], weighted_lai = [Some (1 / 3)]\<rparr>
   \<and> weighted_mean (replicate 9 (Some 3)) (replicate 9 (Some (1 / 2))) = 3"
proof -
  let ?lai = "[replicate 9 (Some (3::real))]"
  let ?sd = "[replicate 9 (Some (1 / 2 :: real))]"
  let ?qc = "[replicate 9 (Some (0::real))]"
  have h1: "map length ?lai = map length ?qc" by simp
  have h2: "map length ?sd = map length ?qc" by simp
  have h3: "0 < length ?qc" by simp
  have h4: "?qc ! 0 \<noteq> []" by simp
  have h5: "\<forall>c<length (?qc ! 0). keep (?lai ! 0 ! c) (?sd ! 0 ! c) (?qc ! 0 ! c)"
    by (simp add: keep_def qc_ok_def sd_ok_def lai_ok_def qc_flags_def)
  have wm: "weighted_mean (replicate 9 (Some 3)) (replicate 9 (Some (1 / 2))) = 3"
    by (simp add: weighted_mean_def inverse_variance_def cell_value_def eval_nat_numeral)
  from weighted_lai_divides_by_count [OF h1 h2 h3 h4 h5] wm show ?thesis
    by (simp add: get_spatial_weighted_LAI_def isin_def invert_def assign_nan_def less_than_def
        greater_than_def isnan_def qc_flags_def nansum_def nanmean_def present_def
        List.map_filter_simps eval_nat_numeral)
qed

text \<open>
  Claim C3. The spec has every cell that fails the keep-mask missing in both the LAI and
  the standard-deviation grid, and without weight also in the normalisation of the other
  pixels. A cell that passes the QC and standard-deviation conditions and fails only the
  ceiling \<open>LAI \<le> 10\<close> is set missing in the LAI array alone: its standard deviation
  stays, and so its inverse variance stays in the divisor of the weights. On a row of
  nine pixels of standard deviation 0.5 of which the first has LAI 3, the second LAI 11
  and the other seven a disallowed QC value, the first pixel gets the weight 1/2 and the
  row yields 3/2, where a weight of 1 and the value 3 were due.
\<close>

theorem lai_ceiling_cell_keeps_its_sd:
  assumes "map length lai = map length qc" and "map length sd = map length qc"
    and "r < length qc" and "c < length (qc ! r)"
    and "qc_ok (qc ! r ! c)" and "sd_ok (sd ! r ! c)" and "\<not> lai_ok (lai ! r ! c)"
  shows "\<exists>st. get_spatial_weighted_LAI lai sd qc = Inr st
           \<and> lai_after st ! r ! c = None
           \<and> sd_after st ! r ! c = sd ! r ! c
           \<and> sd_after st ! r ! c \<noteq> None"
proof -
  have "sd ! r ! c \<noteq> None" using assms(6) by (auto elim: sd_ok_value)
  then show ?thesis
    using assms
    by (simp add: get_spatial_weighted_LAI_Inr nth_lai_masked nth_sd_masked keep_def)
qed

theorem lai_ceiling_cell_keeps_its_sd_witness:
  "get_spatial_weighted_LAI [Some 3 # Some 11 # replicate 7 (Some 3)]
       [replicate 9 (Some (1 / 2))] [Some 0 # Some 0 # replicate 7 (Some 255)]
     = Inr \<lparr>lai_after = [Some 3 # replicate 8 None],
            sd_after = [Some (1 / 2) # Some (1 / 2) # replicate 7 None],
            qc_after = [Some 0 # Some 0 # replicate 7 (Some 255)],
            weighted_lai = [Some (3 / 2)]\<rparr>"
proof -
  let ?lai = "[Some 3 # Some 11 # replicate 7 (Some (3::real))]"
  let ?sd = "[replicate 9 (Some (1 / 2 :: real))]"
  let ?qc = "[Some 0 # Some 0 # replicate 7 (Some (255::real))]"
  have h1: "map length ?lai = map length ?qc" by simp
  have h2: "map length ?sd = map length ?qc" by simp
  have h3: "0 < length ?qc" by simp
  have h4: "1 < length (?qc ! 0)" by simp
  have h5: "qc_ok (?qc ! 0 ! 1)" by (simp add: qc_ok_def qc_flags_def)
  have h6: "sd_ok (?sd ! 0 ! 1)" by (simp add: sd_ok_def)
  have h7: "\<not> lai_ok (?lai ! 0 ! 1)" by (simp add: lai_ok_def)
  from lai_ceiling_cell_keeps_its_sd [OF h1 h2 h3 h4 h5 h6 h7] show ?thesis
    by (simp add: get_spatial_weighted_LAI_def isin_def invert_def assign_nan_def less_than_def
        greater_than_def isnan_def qc_flags_def nansum_def nanmean_def present_def
        List.map_filter_simps eval_nat_numeral)
qed

text \<open>
  Claim C10, as amended. The aggregator leaves the QC array as it was and keeps the
  shape of the other two, but it overwrites cells of the caller's LAI and
  standard-deviation arrays with the missing marker: after the call a LAI cell holds its
  old value where the cell passes the keep-mask and is missing elsewhere, and a
  standard-deviation cell holds its old value where the QC value is accepted and the
  standard deviation is at least 0.1, and is missing elsewhere.
\<close>

theorem get_spatial_weighted_LAI_frame:
  assumes "map length lai = map length qc" and "map length sd = map length qc"
  shows "\<exists>st. get_spatial_weighted_LAI lai sd qc = Inr st \<and> qc_after st = qc
           \<and> map length (lai_after st) = map length lai
           \<and> map length (sd_after st) = map length sd
           \<and> (\<forall>r<length qc. \<forall>c<length (qc ! r).
                lai_after st ! r ! c =
                  (if keep (lai ! r ! c) (sd ! r ! c) (qc ! r ! c) then lai ! r ! c else None)
                \<and> sd_after st ! r ! c =
                  (if qc_ok (qc ! r ! c) \<and> sd_ok (sd ! r ! c) then sd ! r ! c else None))"
  using assms
  by (simp add: get_spatial_weighted_LAI_Inr shape_lai_masked shape_sd_masked
      nth_lai_masked nth_sd_masked)

theorem get_spatial_weighted_LAI_frame_witness:
  "get_spatial_weighted_LAI [Some 3 # replicate 8 (Some 4)] [replicate 9 (Some (1 / 2))]
       [Some 255 # replicate 8 (Some 0)]
     = Inr \<lparr>lai_after = [None # replicate 8 (Some 4)],
            sd_after = [None # replicate 8 (Some (1 / 2))],
            qc_after = [Some 255 # replicate 8 (Some 0)],
            weighted_lai = [Some (1 / 2)]\<rparr>"
proof -
  have h1: "map length [Some 3 # replicate 8 (Some (4::real))]
              = map length [Some 255 # replicate 8 (Some (0::real))]"
    by simp
  have h2: "map length [replicate 9 (Some (1 / 2 :: real))]
              = map length [Some 255 # replicate 8 (Some (0::real))]"
    by simp
  from get_spatial_weighted_LAI_frame [OF h1 h2] show ?thesis
    by (simp add: get_spatial_weighted_LAI_def isin_def invert_def assign_nan_def less_than_def
        greater_than_def isnan_def qc_flags_def nansum_def nanmean_def present_def
        List.map_filter_simps eval_nat_numeral)
qed

text \<open>
  Claim C10 as stated fails: on one row of nine pixels whose first pixel has a
  disallowed QC value, the LAI and standard-deviation arrays after the call differ from
  the arrays passed in.
\<close>

theorem get_spatial_weighted_LAI_overwrites_inputs:
  "map_sum id lai_after
       (get_spatial_weighted_LAI [replicate 9 (Some 3)] [replicate 9 (Some (1 / 2))]
          [Some 255 # replicate 8 (Some 0)])
     = Inr [None # replicate 8 (Some 3)]
   \<and> [None # replicate 8 (Some 3)] \<noteq> [replicate 9 (Some (3::real))]
   \<and> map_sum id sd_after
       (get_spatial_weighted_LAI [replicate 9 (Some 3)] [replicate 9 (Some (1 / 2))]
          [Some 255 # replicate 8 (Some 0)])
     = Inr [None # replicate 8 (Some (1 / 2))]
   \<and> [None # replicate 8 (Some (1 / 2))] \<noteq> [replicate 9 (Some (1 / 2 :: real))]"
  by (simp add: get_spatial_weighted_LAI_def isin_def invert_def assign_nan_def less_than_def
      greater_than_def isnan_def qc_flags_def nansum_def nanmean_def present_def
      List.map_filter_simps eval_nat_numeral)

text \<open>
  Claim C5, as amended. Let \<open>pts\<close> be the non-missing index/value pairs of the series,
  in increasing order of the index. On a series with at least four non-missing entries
  the interpolator returns a series of the same length with no missing entry and no
  negative value, whose last element is 0; before the last position a missing entry is
  the value at its index of the cubic fit to \<open>pts\<close>, and an entry that was present is
  kept, either one raised to 0 when negative. On a series with fewer than four
  non-missing entries the cubic fit raises ValueError and there is no output.
\<close>

theorem interpolate_NA_LAI_dense:
  assumes incr: "sorted_wrt (<) (map fst pts)"
    and pairs: "set pts = {(i, v). i < length unfilled_lai \<and> unfilled_lai ! i = Some v}"
  shows "(4 \<le> length (filter (\<lambda>c. c \<noteq> None) unfilled_lai) \<longrightarrow>
            (\<exists>filled_lai. interpolate_NA_LAI cubic unfilled_lai = Inr filled_lai
               \<and> length filled_lai = length unfilled_lai
               \<and> None \<notin> set filled_lai
               \<and> (\<forall>v. Some v \<in> set filled_lai \<longrightarrow> 0 \<le> v)
               \<and> last filled_lai = Some 0
               \<and> (\<forall>i. Suc i < length unfilled_lai \<longrightarrow>
                    filled_lai ! i =
                      (case unfilled_lai ! i of
                         None \<Rightarrow> Some (max 0 (cubic pts i))
                       | Some v \<Rightarrow> Some (max 0 v)))))
       \<and> (length (filter (\<lambda>c. c \<noteq> None) unfilled_lai) < 4 \<longrightarrow>
            interpolate_NA_LAI cubic unfilled_lai = Inl ValueError)"
proof (intro conjI impI)
  have pts: "pts = known_points unfilled_lai" using incr pairs by (rule known_points_unique)
  {
    assume "length (filter (\<lambda>c. c \<noteq> None) unfilled_lai) < 4"
    then have "length (known_points unfilled_lai) < 4" by (simp only: length_known_points)
    then show "interpolate_NA_LAI cubic unfilled_lai = Inl ValueError"
      by (rule interpolate_NA_LAI_Inl)
  }
  assume "4 \<le> length (filter (\<lambda>c. c \<noteq> None) unfilled_lai)"
  then have four: "4 \<le> length (known_points unfilled_lai)" by (simp only: length_known_points)
  let ?f = "\<lambda>i. case unfilled_lai ! i of
                  None \<Rightarrow> Some (max 0 (cubic pts i))
                | Some v \<Rightarrow> Some (max 0 v)"
  let ?n = "length unfilled_lai"
  let ?out = "(map ?f [0..<?n])[?n - 1 := Some 0]"
  have "4 \<le> ?n" using four length_known_points_le [of unfilled_lai] by (rule le_trans)
  then have n: "0 < ?n" by linarith
  have run: "interpolate_NA_LAI cubic unfilled_lai = Inr ?out"
    unfolding pts using four by (rule interpolate_NA_LAI_Inr)
  have len: "length ?out = ?n" by simp
  have cells: "\<And>c. c \<in> set ?out \<Longrightarrow> \<exists>v. c = Some v \<and> 0 \<le> v"
  proof -
    fix c assume "c \<in> set ?out"
    then have "c \<in> insert (Some 0) (set (map ?f [0..<?n]))"
      using set_update_subset_insert by fastforce
    then show "\<exists>v. c = Some v \<and> 0 \<le> v"
      by (auto split: option.splits)
  qed
  have dense: "None \<notin> set ?out" using cells by fastforce
  have nonneg: "\<forall>v. Some v \<in> set ?out \<longrightarrow> 0 \<le> v" using cells by fastforce
  have lst: "last ?out = Some 0"
    using n by (simp add: last_conv_nth)
  have nth: "\<forall>i. Suc i < ?n \<longrightarrow> ?out ! i = ?f i"
  proof (intro allI impI)
    fix i assume i: "Suc i < ?n"
    then have "i < ?n" and "i \<noteq> ?n - 1" by simp_all
    then show "?out ! i = ?f i" by (simp split: option.splits)
  qed
  show "\<exists>filled_lai. interpolate_NA_LAI cubic unfilled_lai = Inr filled_lai
               \<and> length filled_lai = length unfilled_lai
               \<and> None \<notin> set filled_lai
               \<and> (\<forall>v. Some v \<in> set filled_lai \<longrightarrow> 0 \<le> v)
               \<and> last filled_lai = Some 0
               \<and> (\<forall>i. Suc i < length unfilled_lai \<longrightarrow>
                    filled_lai ! i =
                      (case unfilled_lai ! i of
                         None \<Rightarrow> Some (max 0 (cubic pts i))
                       | Some v \<Rightarrow> Some (max 0 v)))"
    using run len dense nonneg lst nth by blast
qed

text \<open>
  An instance: the fit is the constant curve at the mean of the values it is given, so
  that it depends on its points. The five known values \<open>1, -2, 3, 4, 5\<close> have the mean
  \<open>11/5\<close>, which fills the two gaps before the last position.
\<close>

theorem interpolate_NA_LAI_dense_witness:
  "interpolate_NA_LAI (\<lambda>pts x. sum_list (map snd pts) / real (length pts))
       [Some 1, None, Some (- 2), Some 3, Some 4, None, Some 5, None]
     = Inr [Some 1, Some (11 / 5), Some 0, Some 3, Some 4, Some (11 / 5), Some 5, Some 0]"
proof -
  let ?xs = "[Some 1, None, Some (- 2), Some 3, Some 4, None, Some 5, None :: real option]"
  let ?pts = "[(0, 1), (2, - 2), (3, 3), (4, 4), (6, 5)] :: (nat \<times> real) list"
  let ?mean = "\<lambda>(pts :: (nat \<times> real) list) (x :: nat). sum_list (map snd pts) / real (length pts)"
  have k: "known_points ?xs = ?pts"
    by (simp add: known_points_def List.map_filter_simps upt_rec)
  have h1: "sorted_wrt (<) (map fst ?pts)" by simp
  have h2: "set ?pts = {(i, v). i < length ?xs \<and> ?xs ! i = Some v}"
    using set_known_points [of ?xs] unfolding k .
  from interpolate_NA_LAI_dense [OF h1 h2, of ?mean]
  obtain filled where run: "interpolate_NA_LAI ?mean ?xs = Inr filled"
    and len: "length filled = length ?xs"
    and lst: "last filled = Some 0"
    and nth: "\<forall>i. Suc i < length ?xs \<longrightarrow>
                filled ! i = (case ?xs ! i of None \<Rightarrow> Some (max 0 (?mean ?pts i))
                              | Some v \<Rightarrow> Some (max 0 v))"
    by auto
  have l8: "length filled = 8" using len by simp
  then have "filled \<noteq> []" by auto
  then have "last filled = filled ! 7" using l8 by (simp add: last_conv_nth)
  then have l7: "filled ! 7 = Some 0" using lst by simp
  have "filled = map (nth filled) [0..<8]" using map_nth [of filled] l8 by simp
  also have "\<dots> = [Some 1, Some (11 / 5), Some 0, Some 3, Some 4, Some (11 / 5), Some 5, Some 0]"
    using nth l7 by (simp add: upt_rec eval_nat_numeral)
  finally have "filled
      = [Some 1, Some (11 / 5), Some 0, Some 3, Some 4, Some (11 / 5), Some 5, Some 0]" .
  then show ?thesis using run by simp
qed

text \<open>
  Claim C5 as stated fails: a series of four entries of which the second is missing has
  three non-missing entries. The cubic fit raises ValueError, so the missing entry is
  not filled and there is no dense output.
\<close>

theorem interpolate_NA_LAI_three_points:
  "interpolate_NA_LAI (\<lambda>pts x. sum_list (map snd pts) / real (length pts))
       [Some 1, None, Some 2, Some 3] = Inl ValueError"
  by (simp add: interpolate_NA_LAI_def interp1d_def known_points_def List.map_filter_simps
      upt_rec)




section \<open>The calendar and the gap fill\<close>

lemma slots_per_year: "(days_in_year y - 1) div 8 + 1 = 46"
  by (simp add: days_in_year_def)

lemma year_dates_eq: "year_dates y = map (\<lambda>k. (y, 1 + 8 * k)) [0..<46]"
  unfolding year_dates_def slots_per_year ..

lemma length_year_dates [simp]: "length (year_dates y) = 46"
  by (simp add: year_dates_eq)

lemma length_concat_year_dates: "length (concat (map year_dates ys)) = 46 * length ys"
  by (induction ys) simp_all

lemma map_mem_True: "set xs \<subseteq> S \<Longrightarrow> map (\<lambda>d. d \<in> S) xs = replicate (length xs) True"
  by (induction xs) simp_all

lemma fill_temp_True:
  "k + n \<le> length filled \<Longrightarrow>
   fill_temp (replicate n True @ rest) filled k =
     (case fill_temp rest filled (k + n) of
        Inl e \<Rightarrow> Inl e
      | Inr xs \<Rightarrow> Inr (take n (drop k filled) @ xs))"
proof (induction n arbitrary: k)
  case 0
  then show ?case by (simp split: sum.splits)
next
  case (Suc n)
  then have "Suc k + n \<le> length filled" and k: "k < length filled" by simp_all
  from Suc.IH [OF this(1)] k show ?case
    by (auto split: sum.splits simp: take_Suc_conv_app_nth Cons_nth_drop_Suc [symmetric]
        simp del: append_take_drop_id)
qed

lemma fill_temp_all_True:
  "n \<le> length filled \<Longrightarrow> fill_temp (replicate n True) filled 0 = Inr (take n filled)"
  using fill_temp_True [of 0 n filled "[]"] by simp

lemma fill_temp_False:
  "fill_temp (False # rest) filled k =
     (case fill_temp rest filled k of Inl e \<Rightarrow> Inl e | Inr xs \<Rightarrow> Inr (None # xs))"
  by simp


lemma min_list_int_Min: "ys \<noteq> [] \<Longrightarrow> min_list_int ys = Min (set ys)"
proof (cases ys)
  case Nil
  then show "ys \<noteq> [] \<Longrightarrow> ?thesis" by simp
next
  case (Cons a list)
  show ?thesis unfolding Cons min_list_int_def list.sel by (rule Min.set_eq_fold [symmetric])
qed

lemma max_list_int_Max: "ys \<noteq> [] \<Longrightarrow> max_list_int ys = Max (set ys)"
proof (cases ys)
  case Nil
  then show "ys \<noteq> [] \<Longrightarrow> ?thesis" by simp
next
  case (Cons a list)
  show ?thesis unfolding Cons max_list_int_def list.sel by (rule Max.set_eq_fold [symmetric])
qed

lemma length_all_tsteps:
  "length (all_tsteps stamps) =
     46 * nat (max_list_int (map fst stamps) - min_list_int (map fst stamps) + 1)"
  by (simp add: all_tsteps_def length_concat_year_dates)

lemma reshape_46:
  "length xs = 46 * k \<Longrightarrow>
   reshape 46 xs = Inr (map (\<lambda>r. take 46 (drop (r * 46) xs)) [0..<k])"
  by (simp add: reshape_def)

lemma rows_46:
  assumes "length xs = 46 * k" and "row \<in> set (map (\<lambda>r. take 46 (drop (r * 46) xs)) [0..<k])"
  shows "length row = 46 \<and> set row \<subseteq> set xs"
proof -
  from assms(2) obtain r where r: "r < k" and row: "row = take 46 (drop (r * 46) xs)"
    by auto
  have "r * 46 + 46 \<le> length xs" using r assms(1) by simp
  then have "length row = 46" using row by simp
  moreover have "set row \<subseteq> set xs"
    unfolding row by (meson set_take_subset set_drop_subset subset_trans)
  ultimately show ?thesis by simp
qed

lemma selected_lai_of_complete:
  assumes ne: "stamps \<noteq> []"
    and complete: "set (all_tsteps stamps) \<subseteq> set stamps"
    and enough: "length (all_tsteps stamps) \<le> length filled"
  shows "selected_lai_of filled stamps =
           Inr (butlast (tl (map (\<lambda>r. take 46 (drop (r * 46) (take (length (all_tsteps stamps)) filled)))
                  [0..<nat (max_list_int (map fst stamps) - min_list_int (map fst stamps) + 1)])))"
proof -
  let ?n = "length (all_tsteps stamps)"
  let ?k = "nat (max_list_int (map fst stamps) - min_list_int (map fst stamps) + 1)"
  have res: "map (\<lambda>d. d \<in> set stamps) (all_tsteps stamps) = replicate ?n True"
    using complete by (rule map_mem_True)
  have fill: "fill_temp (replicate ?n True) filled 0 = Inr (take ?n filled)"
    using enough by (rule fill_temp_all_True)
  have len: "length (take ?n filled) = 46 * ?k"
    using enough length_all_tsteps [of stamps] by simp
  show ?thesis
    using ne by (simp only: selected_lai_of_def Let_def res fill reshape_46 [OF len]
        if_False sum.case)
qed

lemma check_no_gap:
  assumes sel: "selected_lai_of filled stamps = Inr sel"
    and ne: "concat sel \<noteq> []" and dense: "None \<notin> set (concat sel)"
  shows "check_data_availability_LAI filled stamps = Inr None"
proof -
  have l: "length (concat (isnan sel)) = length (concat sel)"
    by (simp add: isnan_def length_concat comp_def)
  have "\<And>i. i < length (concat sel) \<Longrightarrow> concat sel ! i \<noteq> None"
  proof
    fix i assume "i < length (concat sel)" and "concat sel ! i = None"
    then have "None \<in> set (concat sel)" by (metis nth_mem)
    then show False using dense by simp
  qed
  then have pos: "filter (\<lambda>i. concat sel ! i = None) [0..<length (concat sel)] = []"
    by (simp add: filter_empty_conv)
  show ?thesis
    using ne by (simp add: check_data_availability_LAI_def sel Let_def l pos)
qed



lemma map_fst_year_dates: "map fst (year_dates y) = replicate 46 y"
  by (simp add: year_dates_eq comp_def map_replicate_const)


lemma py_get_last: "a \<noteq> [] \<Longrightarrow> py_get a (- 1) = Inr (last a)"
proof -
  assume ne: "a \<noteq> []"
  then have pos: "0 < length a" by simp
  then have "nat (int (length a) + - 1) = length a - 1" by simp
  moreover have "- int (length a) \<le> - 1" using pos by linarith
  ultimately show ?thesis using ne by (simp add: py_get_def last_conv_nth)
qed

lemma py_get_nat: "i < length a \<Longrightarrow> py_get a (int i) = Inr (a ! i)"
  by (simp add: py_get_def)

lemma py_get_beyond: "py_get a (int (length a)) = Inl IndexError"
  by (simp add: py_get_def)

lemma positions_first_only:
  assumes "None \<notin> set rest"
  shows "filter (\<lambda>i. (None # rest) ! i = None) [0..<length (None # rest)] = [0]"
proof -
  have "\<And>i. i \<in> set [1..<Suc (length rest)] \<Longrightarrow> (None # rest) ! i \<noteq> None"
  proof
    fix i assume i: "i \<in> set [1..<Suc (length rest)]" and n: "(None # rest) ! i = None"
    from i have "1 \<le> i" and "i < Suc (length rest)" by (simp_all only: set_upt atLeastLessThan_iff)
    then obtain j where "i = Suc j" and "j < length rest" by (cases i) simp_all
    then have "None \<in> set rest" using n by (metis nth_Cons_Suc nth_mem)
    then show False using assms by simp
  qed
  then have "filter (\<lambda>i. (None # rest) ! i = None) [1..<Suc (length rest)] = []"
    by (simp only: filter_empty_conv) blast
  then show ?thesis
    by (simp add: upt_conv_Cons del: upt_Suc)
qed


lemma tl_year_dates: "tl (year_dates y) = map (\<lambda>k. (y, 1 + 8 * k)) [1..<46]"
proof -
  have "[0..<46] = 0 # [1..<46]" by (simp add: upt_conv_Cons)
  then show ?thesis by (simp only: year_dates_eq list.map list.sel)
qed

lemma first_slot_not_observed:
  "(2004, 1) \<notin> set (year_dates 2003 @ tl (year_dates 2004) @ year_dates 2005)"
  unfolding tl_year_dates by (auto simp: year_dates_eq)

lemma observed_of_first_gap:
  "map (\<lambda>d. d \<in> set (year_dates 2003 @ tl (year_dates 2004) @ year_dates 2005))
       (year_dates 2003 @ year_dates 2004 @ year_dates 2005)
     = replicate 46 True @ (False # replicate 45 True @ replicate 46 True)"
proof -
  let ?S = "set (year_dates 2003 @ tl (year_dates 2004) @ year_dates 2005)"
  have "map (\<lambda>d. d \<in> ?S) (year_dates 2003) = replicate (length (year_dates 2003)) True"
    by (rule map_mem_True) auto
  then have a: "map (\<lambda>d. d \<in> ?S) (year_dates 2003) = replicate 46 True"
    by (simp only: length_year_dates)
  have "map (\<lambda>d. d \<in> ?S) (year_dates 2005) = replicate (length (year_dates 2005)) True"
    by (rule map_mem_True) auto
  then have c: "map (\<lambda>d. d \<in> ?S) (year_dates 2005) = replicate 46 True"
    by (simp only: length_year_dates)
  have y: "year_dates 2004 = (2004, 1) # tl (year_dates 2004)"
    by (simp add: year_dates_eq upt_conv_Cons)
  have "map (\<lambda>d. d \<in> ?S) (tl (year_dates 2004)) = replicate (length (tl (year_dates 2004))) True"
    by (rule map_mem_True) auto
  then have b: "map (\<lambda>d. d \<in> ?S) (tl (year_dates 2004)) = replicate 45 True"
    by (simp only: length_tl length_year_dates) simp
  have "map (\<lambda>d. d \<in> ?S) (year_dates 2004)
          = ((2004, 1) \<in> ?S) # map (\<lambda>d. d \<in> ?S) (tl (year_dates 2004))"
    by (subst y) (simp only: list.map)
  then have b': "map (\<lambda>d. d \<in> ?S) (year_dates 2004) = False # replicate 45 True"
    using first_slot_not_observed by (simp only: b)
  show ?thesis by (simp only: map_append a b' c append_Cons)
qed

lemma all_tsteps_of_first_gap:
  "all_tsteps (year_dates 2003 @ tl (year_dates 2004) @ year_dates 2005)
     = year_dates 2003 @ year_dates 2004 @ year_dates 2005"
proof -
  let ?stamps = "year_dates 2003 @ tl (year_dates 2004) @ year_dates 2005"
  have ne': "map fst ?stamps \<noteq> []" by (simp add: year_dates_eq)
  have ys: "set (map fst ?stamps) = {2003, 2004, 2005}"
    by (simp add: map_fst_year_dates map_tl insert_commute)
  have mn: "min_list_int (map fst ?stamps) = 2003"
    unfolding min_list_int_Min [OF ne'] ys by simp
  have mx: "max_list_int (map fst ?stamps) = 2005"
    unfolding max_list_int_Max [OF ne'] ys by simp
  show ?thesis unfolding all_tsteps_def mn mx by simp
qed

lemma fill_temp_of_first_gap:
  "fill_temp (replicate 46 True @ (False # replicate 45 True @ replicate 46 True))
       (map (\<lambda>i. Some (real i)) [0..<137]) 0
     = Inr (map (\<lambda>i. Some (real i)) [0..<46] @ None # map (\<lambda>i. Some (real i)) [46..<137])"
proof -
  let ?F = "map (\<lambda>i. Some (real i)) [0..<137]"
  have r: "replicate 45 True @ replicate 46 True = replicate 91 True @ []"
    by (simp add: replicate_add [symmetric])
  have t3: "fill_temp (replicate 91 True @ []) ?F 46 = Inr (map (\<lambda>i. Some (real i)) [46..<137])"
    by (subst fill_temp_True) (simp_all add: take_map drop_map)
  have t2: "fill_temp (False # replicate 45 True @ replicate 46 True) ?F 46
              = Inr (None # map (\<lambda>i. Some (real i)) [46..<137])"
    by (simp only: fill_temp_False r t3 sum.case)
  have t2': "fill_temp (False # replicate 45 True @ replicate 46 True) ?F (0 + 46)
              = Inr (None # map (\<lambda>i. Some (real i)) [46..<137])"
    using t2 by simp
  show ?thesis
    by (subst fill_temp_True) (simp_all only: t2' sum.case, simp_all add: take_map)
qed


lemma selected_lai_of_first_gap:
  "selected_lai_of (map (\<lambda>i. Some (real i)) [0..<137])
       (year_dates 2003 @ tl (year_dates 2004) @ year_dates 2005)
     = Inr [None # map (\<lambda>i. Some (real i)) [46..<91]]"
proof -
  let ?f = "\<lambda>i. Some (real i)"
  let ?temp = "map ?f [0..<46] @ None # map ?f [46..<137]"
  have ne: "year_dates 2003 @ tl (year_dates 2004) @ year_dates 2005 \<noteq> []"
    by (simp add: year_dates_eq)
  have len: "length ?temp = 46 * 3" by simp
  have three: "[0..<3] = [0, 1, 2]" by (simp add: upt_conv_Cons)
  have row: "take 46 (drop (1 * 46) ?temp) = None # map ?f [46..<91]"
    by (simp add: take_map)
  have "butlast (tl (map (\<lambda>r. take 46 (drop (r * 46) ?temp)) [0..<3]))
          = [take 46 (drop (1 * 46) ?temp)]"
    unfolding three by (simp only: list.map list.sel butlast.simps) simp
  then have sel: "butlast (tl (map (\<lambda>r. take 46 (drop (r * 46) ?temp)) [0..<3]))
          = [None # map ?f [46..<91]]"
    by (simp only: row)
  show ?thesis
    using ne
    by (simp only: selected_lai_of_def Let_def all_tsteps_of_first_gap observed_of_first_gap
        fill_temp_of_first_gap reshape_46 [OF len] sel if_False sum.case)
qed


text \<open>
  A gap in the last position of the flattened array reads one position past the end, which
  numpy refuses with IndexError.
\<close>

lemma py_get_Inl: "py_get a i = Inl e \<Longrightarrow> e = IndexError"
  by (simp add: py_get_def split: if_splits)

lemma fill_gaps_last_position:
  assumes "a \<noteq> []"
  shows "fill_gaps a ((length a - 1) # positions) = Inl IndexError"
proof -
  have "int (length a - 1) + 1 = int (length a)" using assms by (cases a) simp_all
  then have "py_get a (int (length a - 1) + 1) = Inl IndexError"
    by (simp only: py_get_beyond)
  then show ?thesis by (auto split: sum.splits dest: py_get_Inl)
qed

section \<open>Claims on the calendar regularizer\<close>

text \<open>
  Claim C2. The spec has the regularizer return the pair of the gap-free matrix and the
  retained dates for every input, also when the matrix has no missing cell. The code tests
  \<^verbatim>\<open>len(np.isnan(selected_lai).flatten()) > 0\<close>, which counts the cells and not the missing
  ones; with a non-empty matrix it enters the branch whose only \<^verbatim>\<open>return\<close> sits under
  \<^verbatim>\<open>if len(positions) > 0\<close>, and with no missing cell it falls off the end of the function
  and returns \<^verbatim>\<open>None\<close>. So for every record that holds all the calendar dates of at least
  three years and has no missing value, no pair is returned.
\<close>

theorem check_data_availability_LAI_complete:
  assumes ne: "stamps \<noteq> []"
    and complete: "set (all_tsteps stamps) \<subseteq> set stamps"
    and enough: "length (all_tsteps stamps) \<le> length filled"
    and dense: "None \<notin> set filled"
    and years: "min_list_int (map fst stamps) + 2 \<le> max_list_int (map fst stamps)"
  shows "check_data_availability_LAI filled stamps = Inr None"
proof -
  define k where "k = nat (max_list_int (map fst stamps) - min_list_int (map fst stamps) + 1)"
  define xs where "xs = take (length (all_tsteps stamps)) filled"
  define rows where "rows = map (\<lambda>r. take 46 (drop (r * 46) xs)) [0..<k]"
  have k3: "3 \<le> k" using years by (simp add: k_def)
  have len: "length xs = 46 * k"
    using enough length_all_tsteps [of stamps] by (simp add: xs_def k_def)
  have sel: "selected_lai_of filled stamps = Inr (butlast (tl rows))"
    using selected_lai_of_complete [OF ne complete enough] by (simp add: rows_def xs_def k_def)
  have rows: "\<And>row. row \<in> set rows \<Longrightarrow> length row = 46 \<and> set row \<subseteq> set xs"
    unfolding rows_def by (rule rows_46 [OF len])
  have "set (tl rows) \<subseteq> set rows" by (cases rows) auto
  then have sub: "set (butlast (tl rows)) \<subseteq> set rows"
    by (auto dest: in_set_butlastD)
  have "length (butlast (tl rows)) = k - 2" by (simp add: rows_def)
  then have "0 < length (butlast (tl rows))" using k3 by linarith
  then have "butlast (tl rows) \<noteq> []" by (simp del: length_butlast length_tl)
  then obtain row where row: "row \<in> set (butlast (tl rows))"
    by (meson last_in_set)
  then have "row \<in> set rows" using sub by blast
  then have "length row = 46" using rows by blast
  then have "row \<noteq> []" by auto
  then have ne': "concat (butlast (tl rows)) \<noteq> []" using row by auto
  have xf: "set xs \<subseteq> set filled" unfolding xs_def by (rule set_take_subset)
  have dense': "None \<notin> set (concat (butlast (tl rows)))"
  proof
    assume "None \<in> set (concat (butlast (tl rows)))"
    then obtain r where r: "r \<in> set (butlast (tl rows))" and n: "None \<in> set r" by auto
    from r sub have "r \<in> set rows" by blast
    then have "set r \<subseteq> set xs" using rows by blast
    then show False using n xf dense by blast
  qed
  show ?thesis using sel ne' dense' by (rule check_no_gap)
qed


theorem check_data_availability_LAI_complete_witness:
  "check_data_availability_LAI (replicate 137 (Some 3) @ [Some 0])
       (concat (map year_dates [2003, 2004, 2005])) = Inr None"
proof -
  let ?stamps = "concat (map year_dates [2003, 2004, 2005])"
  have ne: "?stamps \<noteq> []" by (simp add: year_dates_eq)
  have ys: "set (map fst ?stamps) = {2003, 2004, 2005}"
    by (simp add: map_fst_year_dates insert_commute)
  have ne': "map fst ?stamps \<noteq> []" using ne by (simp only: map_is_Nil_conv) simp
  have mn: "min_list_int (map fst ?stamps) = 2003"
    unfolding min_list_int_Min [OF ne'] ys by simp
  have mx: "max_list_int (map fst ?stamps) = 2005"
    unfolding max_list_int_Max [OF ne'] ys by simp
  have all: "all_tsteps ?stamps = ?stamps"
    unfolding all_tsteps_def mn mx by simp
  have h2: "set (all_tsteps ?stamps) \<subseteq> set ?stamps" unfolding all by simp
  have h3: "length (all_tsteps ?stamps) \<le> length (replicate 137 (Some (3::real)) @ [Some 0])"
    unfolding all by simp
  have h4: "None \<notin> set (replicate 137 (Some (3::real)) @ [Some 0])" by simp
  have h5: "min_list_int (map fst ?stamps) + 2 \<le> max_list_int (map fst ?stamps)"
    unfolding mn mx by simp
  show ?thesis
    using check_data_availability_LAI_complete [OF ne h2 h3 h4 h5] .
qed

text \<open>
  Claim C8. The spec has a missing first or last position of the flattened array detected
  and reported. The code detects neither. When the first position is the only gap, it is
  filled with the mean of the last element of the array (index \<open>-1\<close>, the opposite end)
  and the second element, and the matrix is returned as if nothing had happened.
\<close>

theorem check_data_availability_LAI_first_gap:
  assumes sel: "selected_lai_of filled stamps = Inr sel"
    and first: "concat sel = None # rest"
    and two: "2 \<le> length rest"
    and dense: "None \<notin> set rest"
  shows "check_data_availability_LAI filled stamps =
           (case reshape 46 (nan_div (nan_add (last rest) (hd rest)) (Some 2) # rest) of
              Inl e \<Rightarrow> Inl e
            | Inr gap_free_lai \<Rightarrow> Inr (Some (gap_free_lai, selected_dates_of stamps)))"
proof -
  have ne: "rest \<noteq> []" using two by auto
  have l: "length (concat (isnan sel)) = length (concat sel)"
    by (simp add: isnan_def length_concat comp_def)
  have pos: "filter (\<lambda>i. concat sel ! i = None) [0..<length (concat sel)] = [0]"
    unfolding first using dense by (rule positions_first_only)
  have g1: "py_get (None # rest) (int 0 - 1) = Inr (last rest)"
    using py_get_last [of "None # rest"] ne by simp
  have g2: "py_get (None # rest) (int 0 + 1) = Inr (hd rest)"
    using py_get_nat [of 1 "None # rest"] ne by (simp add: hd_conv_nth)
  have fill: "fill_gaps (None # rest) [0] =
                Inr (nan_div (nan_add (last rest) (hd rest)) (Some 2) # rest)"
    by (simp only: fill_gaps.simps g1 g2 sum.case list_update_code)
  show ?thesis
    unfolding check_data_availability_LAI_def sel sum.case Let_def l pos
    unfolding first fill by simp
qed



theorem check_data_availability_LAI_first_gap_witness:
  "check_data_availability_LAI (map (\<lambda>i. Some (real i)) [0..<137])
       (year_dates 2003 @ tl (year_dates 2004) @ year_dates 2005)
     = Inr (Some ([Some 68 # map (\<lambda>i. Some (real i)) [46..<91]],
                  selected_dates_of (year_dates 2003 @ tl (year_dates 2004) @ year_dates 2005)))"
proof -
  let ?f = "\<lambda>i. Some (real i)"
  let ?rest = "map ?f [46..<91]"
  have h2: "concat [None # ?rest] = None # ?rest" by simp
  have h3: "2 \<le> length ?rest" by simp
  have h4: "None \<notin> set ?rest" by auto
  have lst: "last ?rest = Some 90" by (simp add: last_map last_upt)
  have fst: "hd ?rest = Some 46" by (simp add: hd_map upt_conv_Cons)
  have len: "length (Some 68 # ?rest) = 46 * 1" by simp
  have one: "[0..<1] = [0]" by simp
  have "reshape 46 (Some 68 # ?rest) = Inr [Some 68 # ?rest]"
    unfolding reshape_46 [OF len] one by simp
  then show ?thesis
    using check_data_availability_LAI_first_gap [OF selected_lai_of_first_gap h2 h3 h4]
    by (simp add: lst fst)
qed

section \<open>Rows, slices and windows\<close>

lemma length_concat_rect:
  "\<forall>row\<in>set g. length row = w \<Longrightarrow> length (concat g) = length g * w"
  by (induction g) simp_all

lemma nth_concat_rect:
  "\<forall>row\<in>set g. length row = w \<Longrightarrow> j < length g * w \<Longrightarrow>
   concat g ! j = g ! (j div w) ! (j mod w)"
proof (induction g arbitrary: j)
  case Nil
  then show ?case by simp
next
  case (Cons r g)
  then have lr: "length r = w" and rest: "\<forall>row\<in>set g. length row = w" by simp_all
  show ?case
  proof (cases "j < w")
    case True
    then show ?thesis using lr by (simp add: nth_append)
  next
    case False
    then have wj: "w \<le> j" by simp
    have w0: "0 < w" using Cons.prems(2) by (cases w) simp_all
    have j': "j - w < length g * w" using Cons.prems(2) wj by simp
    have d: "j div w = Suc ((j - w) div w)" using wj w0 by (simp add: le_div_geq)
    have m: "j mod w = (j - w) mod w" using wj by (simp add: le_mod_geq)
    show ?thesis
      using Cons.IH [OF rest j'] False lr by (simp add: nth_append d m)
  qed
qed

lemma slice_map_nth:
  assumes "hi \<le> length xs"
  shows "take (hi - lo) (drop lo xs) = map (nth xs) [lo..<hi]"
proof (rule nth_equalityI)
  show l: "length (take (hi - lo) (drop lo xs)) = length (map (nth xs) [lo..<hi])"
    using assms by simp
  fix k assume "k < length (take (hi - lo) (drop lo xs))"
  then have k: "k < hi - lo" using l by simp
  then have "lo + k < hi" by simp
  then show "take (hi - lo) (drop lo xs) ! k = map (nth xs) [lo..<hi] ! k"
    using k assms by simp
qed

lemma np_mean_window:
  assumes "lo \<le> hi"
  shows "np_mean (map f [lo..<Suc hi]) = window_average f lo hi"
proof -
  have ne: "map f [lo..<Suc hi] \<noteq> []" using assms by simp
  have ex: "list_ex (\<lambda>j. f j = None) [lo..<Suc hi] \<longleftrightarrow> None \<in> set (map f [lo..<Suc hi])"
    unfolding list_ex_iff set_map image_iff by (metis (full_types))
  show ?thesis
  proof (cases "None \<in> set (map f [lo..<Suc hi])")
    case True
    then show ?thesis unfolding window_average_def ex np_mean_def by simp
  next
    case False
    then show ?thesis
      unfolding window_average_def ex np_mean_def using ne
      by (simp add: present_dense comp_def del: upt_Suc)
  qed
qed

lemma nth_rolling_mean_13:
  assumes "i < length xs"
  shows "rolling_mean xs 13 ! i = window_average (nth xs) (i - 6) (min (length xs - 1) (i + 6))"
proof -
  let ?n = "length xs"
  have s: "nat (max 0 (int i - 6)) = i - 6" by simp
  have e: "min ?n (i + 7) = Suc (min (?n - 1) (i + 6))" using assms by arith
  have le: "i - 6 \<le> min (?n - 1) (i + 6)" using assms by arith
  have hi: "Suc (min (?n - 1) (i + 6)) \<le> ?n" using assms by arith
  have "rolling_mean xs 13 ! i
          = np_mean (take (min ?n (i + 7) - nat (max 0 (int i - 6)))
                       (drop (nat (max 0 (int i - 6))) xs))"
    using assms by (simp add: rolling_mean_def Let_def)
  also have "\<dots> = np_mean (take (Suc (min (?n - 1) (i + 6)) - (i - 6)) (drop (i - 6) xs))"
    by (simp only: s e)
  also have "\<dots> = np_mean (map (nth xs) [i - 6..<Suc (min (?n - 1) (i + 6))])"
    by (simp only: slice_map_nth [OF hi])
  also have "\<dots> = window_average (nth xs) (i - 6) (min (?n - 1) (i + 6))"
    using le by (rule np_mean_window)
  finally show ?thesis .
qed

lemma length_rolling_mean [simp]: "length (rolling_mean xs k) = length xs"
  by (simp add: rolling_mean_def)

lemma column_means_rect:
  assumes "m \<noteq> []" and "\<forall>row\<in>set m. length row = w"
  shows "column_means m = map (slot_mean m) [0..<w]"
proof -
  obtain r rs where m: "m = r # rs" using assms(1) by (cases m) auto
  then have "length r = w" using assms(2) by simp
  then show ?thesis unfolding column_means_def m slot_mean_def by simp
qed

lemma length_anomaly_of:
  assumes "m \<noteq> []" and "\<forall>row\<in>set m. length row = w"
  shows "\<forall>row\<in>set (anomaly_of m). length row = w"
  using assms by (simp add: anomaly_of_def column_means_rect [OF assms])

lemma nth_anomaly_of:
  assumes ne: "m \<noteq> []" and rect: "\<forall>row\<in>set m. length row = w" and j: "j < length m * w"
  shows "concat (anomaly_of m) ! j = anomaly_at m w j"
proof -
  have w0: "0 < w" using j by (cases w) simp_all
  have r: "j div w < length m" using j w0 by (simp add: less_mult_imp_div_less)
  have c: "j mod w < w" using w0 by simp
  have lr: "length (m ! (j div w)) = w" using rect r by simp
  have "concat (anomaly_of m) ! j = anomaly_of m ! (j div w) ! (j mod w)"
    using nth_concat_rect [OF length_anomaly_of [OF ne rect], of j] j
    by (simp add: anomaly_of_def)
  also have "\<dots> = nan_sub (m ! (j div w) ! (j mod w)) (column_means m ! (j mod w))"
    using r c lr by (simp add: anomaly_of_def column_means_rect [OF ne rect])
  also have "\<dots> = anomaly_at m w j"
    using c by (simp add: anomaly_at_def column_means_rect [OF ne rect])
  finally show ?thesis .
qed

lemma length_concat_anomaly_of:
  assumes "m \<noteq> []" and "\<forall>row\<in>set m. length row = w"
  shows "length (concat (anomaly_of m)) = length m * w"
  using length_concat_rect [OF length_anomaly_of [OF assms]] by (simp add: anomaly_of_def)

lemma nth_tile:
  assumes "length s = w" and "i < k * w"
  shows "concat (replicate k s) ! i = s ! (i mod w)"
proof -
  have w0: "0 < w" using assms(2) by (cases w) simp_all
  have r: "i div w < k" using assms(2) w0 by (simp add: less_mult_imp_div_less)
  have "concat (replicate k s) ! i = replicate k s ! (i div w) ! (i mod w)"
    using nth_concat_rect [of "replicate k s" w i] assms by simp
  then show ?thesis using r by simp
qed

lemma length_tile: "length s = w \<Longrightarrow> length (concat (replicate k s)) = k * w"
  using length_concat_rect [of "replicate k s" w] by simp

lemma window_average_cong:
  assumes "\<And>j. lo \<le> j \<Longrightarrow> j \<le> hi \<Longrightarrow> f j = g j"
  shows "window_average f lo hi = window_average g lo hi"
proof -
  have eq: "\<And>j. j \<in> set [lo..<Suc hi] \<Longrightarrow> f j = g j"
    using assms by (simp del: upt_Suc)
  have "list_ex (\<lambda>j. f j = None) [lo..<Suc hi] = list_ex (\<lambda>j. g j = None) [lo..<Suc hi]"
    unfolding list_ex_iff using eq by metis
  moreover have "map (\<lambda>j. cell_value (f j)) [lo..<Suc hi] = map (\<lambda>j. cell_value (g j)) [lo..<Suc hi]"
    by (rule map_cong [OF refl]) (simp only: eq)
  ultimately show ?thesis unfolding window_average_def by (simp only:)
qed

lemma np_mean_dense: "ys \<noteq> [] \<Longrightarrow> None \<notin> set ys \<Longrightarrow> np_mean ys \<noteq> None"
  by (simp add: np_mean_def)

lemma rolling_mean_dense:
  assumes "None \<notin> set xs"
  shows "None \<notin> set (rolling_mean xs 13)"
proof
  assume "None \<in> set (rolling_mean xs 13)"
  then obtain i where i: "i < length xs" and n: "rolling_mean xs 13 ! i = None"
    by (metis in_set_conv_nth length_rolling_mean)
  let ?s = "nat (max 0 (int i - int (13 div 2)))"
  let ?e = "min (length xs) (i + (13 + 1) div 2)"
  let ?slice = "take (?e - ?s) (drop ?s xs)"
  have "?s \<le> i" by simp
  moreover have "i < ?e" using i by simp
  ultimately have "0 < length ?slice" using i by simp
  then have ne: "?slice \<noteq> []" by (rule length_greater_0_conv [THEN iffD1])
  have "set ?slice \<subseteq> set xs"
    by (meson set_take_subset set_drop_subset subset_trans)
  then have "None \<notin> set ?slice" using assms by blast
  with ne have "np_mean ?slice \<noteq> None" by (rule np_mean_dense)
  moreover have "rolling_mean xs 13 ! i = np_mean ?slice"
    using i by (simp add: rolling_mean_def Let_def)
  ultimately show False using n by simp
qed

lemma slot_mean_dense:
  assumes ne: "m \<noteq> []" and full: "\<forall>row\<in>set m. length row = w \<and> None \<notin> set row" and c: "c < w"
  shows "slot_mean m c \<noteq> None"
proof -
  obtain r rs where m: "m = r # rs" using ne by (cases m) auto
  then have "length r = w" and "None \<notin> set r" using full by simp_all
  then have "r ! c \<noteq> None" using c by (metis nth_mem)
  then have "\<not> (\<forall>x\<in>set (map (\<lambda>row. row ! c) m). x = None)" by (simp add: m)
  then show ?thesis unfolding slot_mean_def nanmean_None .
qed

lemma anomaly_dense:
  assumes ne: "m \<noteq> []" and full: "\<forall>row\<in>set m. length row = w \<and> None \<notin> set row"
  shows "None \<notin> set (concat (anomaly_of m))"
proof
  have rect: "\<forall>row\<in>set m. length row = w" using full by simp
  assume "None \<in> set (concat (anomaly_of m))"
  then obtain j where j: "j < length m * w" and n: "concat (anomaly_of m) ! j = None"
    using length_concat_anomaly_of [OF ne rect] by (metis in_set_conv_nth)
  have w0: "0 < w" using j by (cases w) simp_all
  have r: "j div w < length m" using j w0 by (simp add: less_mult_imp_div_less)
  have c: "j mod w < w" using w0 by simp
  have row: "m ! (j div w) \<in> set m" using r by simp
  then have "length (m ! (j div w)) = w" and "None \<notin> set (m ! (j div w))" using full by simp_all
  then have "m ! (j div w) ! (j mod w) \<noteq> None" using c by (metis nth_mem)
  moreover have "slot_mean m (j mod w) \<noteq> None" using ne full c by (rule slot_mean_dense)
  ultimately have "anomaly_at m w j \<noteq> None" by (auto simp: anomaly_at_def)
  then show False using n nth_anomaly_of [OF ne rect j] by simp
qed


lemma column_means_dense:
  assumes ne: "m \<noteq> []" and full: "\<forall>row\<in>set m. length row = w \<and> None \<notin> set row"
  shows "None \<notin> set (column_means m)"
proof -
  have rect: "\<forall>row\<in>set m. length row = w" using full by simp
  show ?thesis
  proof
    assume "None \<in> set (column_means m)"
    then obtain c where "c < w" and "slot_mean m c = None"
      unfolding column_means_rect [OF ne rect] by auto
    then show False using slot_mean_dense [OF ne full] by blast
  qed
qed

section \<open>The filter on the per-slot means\<close>

text \<open>
  The mean of a slot is missing exactly when no year observes the slot, so the filter
  meets a NaN among its first or last 13 values exactly when an edge slot is observed
  in no year.
\<close>

lemma slot_mean_None: "slot_mean m c = None \<longleftrightarrow> \<not> observed_slot m c"
  unfolding slot_mean_def nanmean_None observed_slot_def list_ex_iff by auto

lemma None_in_slot_means:
  "None \<in> set (map (slot_mean m) cs) \<longleftrightarrow> (\<exists>c\<in>set cs. \<not> observed_slot m c)"
proof -
  have "None \<in> set (map (slot_mean m) cs) \<longleftrightarrow> (\<exists>c\<in>set cs. slot_mean m c = None)"
    unfolding set_map image_iff by (rule bex_cong [OF refl]) (rule eq_commute)
  then show ?thesis by (simp only: slot_mean_None)
qed

lemma edge_slots_observed_ne: "edge_slots_observed m w \<Longrightarrow> m \<noteq> []"
proof
  assume "edge_slots_observed m w" and "m = []"
  then have "\<forall>c\<in>set ([0..<13] @ [w - 13..<w]). observed_slot [] c"
    by (simp only: edge_slots_observed_def list_all_iff)
  moreover have "(0::nat) \<in> set ([0..<13] @ [w - 13..<w])" by simp
  ultimately have "observed_slot [] 0" by (rule bspec)
  then show False by (simp add: observed_slot_def)
qed

lemma edge_profile:
  assumes ne: "m \<noteq> []" and rect: "\<forall>row\<in>set m. length row = w" and w13: "13 \<le> w"
  shows "None \<in> set (take 13 (column_means m))
           \<or> None \<in> set (drop (length (column_means m) - 13) (column_means m))
         \<longleftrightarrow> \<not> edge_slots_observed m w"
proof -
  have cm: "column_means m = map (slot_mean m) [0..<w]"
    using ne rect by (rule column_means_rect)
  have t: "take 13 (column_means m) = map (slot_mean m) [0..<13]"
    using w13 by (simp add: cm take_map)
  have d: "drop (length (column_means m) - 13) (column_means m) = map (slot_mean m) [w - 13..<w]"
    using w13 by (simp add: cm drop_map)
  show ?thesis
    unfolding t d None_in_slot_means edge_slots_observed_def list_all_iff set_append
    by blast
qed

lemma savgol_filter_profile:
  assumes rect: "\<forall>row\<in>set m. length row = w"
  shows "savgol_filter sg (column_means m) 13 3
           = (if 13 \<le> w \<and> edge_slots_observed m w then Inr (sg 13 3 (column_means m))
              else Inl ValueError)"
proof (cases "m = []")
  case True
  have "\<not> edge_slots_observed [] w" using edge_slots_observed_ne [of "[]" w] by blast
  then show ?thesis by (simp add: True savgol_filter_def column_means_def)
next
  case False
  have cm: "column_means m = map (slot_mean m) [0..<w]"
    using False rect by (rule column_means_rect)
  show ?thesis
  proof (cases "13 \<le> w")
    case True
    then have len: "\<not> length (column_means m) < 13" by (simp add: cm)
    show ?thesis
      unfolding savgol_filter_def using True len edge_profile [OF False rect True]
      by simp
  next
    case short: False
    then have "length (column_means m) < 13" by (simp add: cm)
    then show ?thesis using short by (simp add: savgol_filter_def)
  qed
qed

lemma smoothing_LAI_Inl:
  assumes "\<forall>row\<in>set m. length row = w" and "\<not> (13 \<le> w \<and> edge_slots_observed m w)"
  shows "smoothing_LAI fl sg m = Inl ValueError"
proof -
  have "savgol_filter sg (column_means m) 13 3 = Inl ValueError"
    unfolding savgol_filter_profile [OF assms(1)] using assms(2) by (simp only: if_False)
  then show ?thesis by (simp add: smoothing_LAI_def)
qed

lemma smoothing_LAI_Inr:
  assumes rect: "\<forall>row\<in>set m. length row = w" and w13: "13 \<le> w"
    and edge: "edge_slots_observed m w"
    and lsg: "length (sg 13 3 (column_means m)) = length (column_means m)"
  shows "smoothing_LAI fl sg m
           = Inr (map2 (fl_add fl) (rolling_mean (concat (anomaly_of m)) 13)
                    (concat (replicate (length m) (sg 13 3 (column_means m)))))"
proof -
  have ne: "m \<noteq> []" using edge by (rule edge_slots_observed_ne)
  have cm: "column_means m = map (slot_mean m) [0..<w]"
    using ne rect by (rule column_means_rect)
  have lsg': "length (sg 13 3 (column_means m)) = w" using lsg by (simp add: cm)
  have la: "length (anomaly_of m) = length m" by (simp add: anomaly_of_def)
  have lroll: "length (rolling_mean (concat (anomaly_of m)) 13) = length m * w"
    using length_concat_anomaly_of [OF ne rect] by simp
  have ltile: "length (concat (replicate (length m) (sg 13 3 (column_means m)))) = length m * w"
    using lsg' by (rule length_tile)
  have "savgol_filter sg (column_means m) 13 3 = Inr (sg 13 3 (column_means m))"
    unfolding savgol_filter_profile [OF rect] using w13 edge by simp
  then show ?thesis
    using lroll ltile by (simp add: smoothing_LAI_def Let_def np_add_def la)
qed

lemma full_edge_slots_observed:
  assumes ne: "m \<noteq> []" and full: "\<forall>row\<in>set m. length row = w \<and> None \<notin> set row"
    and w13: "13 \<le> w"
  shows "edge_slots_observed m w"
proof -
  have "observed_slot m c" if "c < w" for c
    using slot_mean_dense [OF ne full that] by (simp add: slot_mean_None)
  then show ?thesis
    using w13 by (auto simp: edge_slots_observed_def list_all_iff)
qed

text \<open>
  Two fully observed years that differ in the first slot: the raw means, the anomaly
  and its rolling means at the positions 0 and 46, which both fall on slot 0.
\<close>

lemma two_years_means:
  "length (column_means [Some 2 # replicate 45 (Some 0), replicate 46 (Some 0)]) = 46"
  "column_means [Some 2 # replicate 45 (Some 0), replicate 46 (Some 0)] ! 0 = Some 1"
proof -
  let ?m = "[Some 2 # replicate 45 (Some 0), replicate 46 (Some (0::real))]"
  have ne: "?m \<noteq> []" by simp
  have rect: "\<forall>row\<in>set ?m. length row = 46" by simp
  show "length (column_means ?m) = 46" by (simp add: column_means_def)
  show "column_means ?m ! 0 = Some 1"
    by (simp add: column_means_rect [OF ne rect] slot_mean_def nanmean_def present_def
        List.map_filter_simps)
qed

lemma two_years_anomaly:
  "length (concat (anomaly_of [Some 2 # replicate 45 (Some 0), replicate 46 (Some 0)])) = 92"
  "concat (anomaly_of [Some 2 # replicate 45 (Some 0), replicate 46 (Some 0)]) ! 0 = Some 1"
  "concat (anomaly_of [Some 2 # replicate 45 (Some 0), replicate 46 (Some 0)]) ! 46
     = Some (- 1)"
proof -
  let ?m = "[Some 2 # replicate 45 (Some 0), replicate 46 (Some (0::real))]"
  have ne: "?m \<noteq> []" by simp
  have rect: "\<forall>row\<in>set ?m. length row = 46" by simp
  show "length (concat (anomaly_of ?m)) = 92"
    using length_concat_anomaly_of [OF ne rect] by simp
  show "concat (anomaly_of ?m) ! 0 = Some 1"
    using nth_anomaly_of [OF ne rect, of 0]
    by (simp add: anomaly_at_def slot_mean_def nanmean_def present_def List.map_filter_simps)
  show "concat (anomaly_of ?m) ! 46 = Some (- 1)"
    using nth_anomaly_of [OF ne rect, of 46]
    by (simp add: anomaly_at_def slot_mean_def nanmean_def present_def List.map_filter_simps)
qed

lemma two_years_rolling:
  "rolling_mean
       (concat (anomaly_of [Some 2 # replicate 45 (Some 0), replicate 46 (Some 0)])) 13 ! 0
     = Some (1 / 7)"
  "rolling_mean
       (concat (anomaly_of [Some 2 # replicate 45 (Some 0), replicate 46 (Some 0)])) 13 ! 46
     = Some (- (1 / 13))"
proof -
  let ?m = "[Some 2 # replicate 45 (Some 0), replicate 46 (Some (0::real))]"
  define flat where "flat = concat (anomaly_of ?m)"
  have ne: "?m \<noteq> []" by simp
  have rect: "\<forall>row\<in>set ?m. length row = 46" by simp
  have lflat: "length flat = 92" unfolding flat_def by (rule two_years_anomaly(1))
  have w0: "window_average (anomaly_at ?m 46) 0 6 = Some (1 / 7)"
    by (simp add: window_average_def anomaly_at_def slot_mean_def nanmean_def present_def
        List.map_filter_simps cell_value_def upt_rec)
  have w46: "window_average (anomaly_at ?m 46) 40 52 = Some (- (1 / 13))"
    by (simp add: window_average_def anomaly_at_def slot_mean_def nanmean_def present_def
        List.map_filter_simps cell_value_def upt_rec)
  have "window_average (nth flat) 0 6 = window_average (anomaly_at ?m 46) 0 6"
    unfolding flat_def by (rule window_average_cong) (simp add: nth_anomaly_of [OF ne rect])
  then have "rolling_mean flat 13 ! 0 = Some (1 / 7)"
    using nth_rolling_mean_13 [of 0 flat] lflat w0 by simp
  then show "rolling_mean (concat (anomaly_of ?m)) 13 ! 0 = Some (1 / 7)"
    unfolding flat_def .
  have "window_average (nth flat) 40 52 = window_average (anomaly_at ?m 46) 40 52"
    unfolding flat_def by (rule window_average_cong) (simp add: nth_anomaly_of [OF ne rect])
  then have "rolling_mean flat 13 ! 46 = Some (- (1 / 13))"
    using nth_rolling_mean_13 [of 46 flat] lflat w46 by simp
  then show "rolling_mean (concat (anomaly_of ?m)) 13 ! 46 = Some (- (1 / 13))"
    unfolding flat_def .
qed

text \<open>
  The error of a sum followed by the subtraction of one of its terms, when each of the
  two results is rounded with a relative error of at most \<open>u\<close>.
\<close>

lemma round_trip_error:
  fixes u y a s z :: real
  assumes u: "0 \<le> u" and e1: "\<bar>y - (a + s)\<bar> \<le> u * \<bar>a + s\<bar>"
    and e2: "\<bar>z - (y - s)\<bar> \<le> u * \<bar>y - s\<bar>"
  shows "\<bar>z - a\<bar> \<le> u * \<bar>a\<bar> + (u + u * u) * \<bar>a + s\<bar>"
proof -
  have "\<bar>y - s\<bar> \<le> \<bar>a\<bar> + \<bar>y - (a + s)\<bar>" by linarith
  also have "\<dots> \<le> \<bar>a\<bar> + u * \<bar>a + s\<bar>" using e1 by simp
  finally have "u * \<bar>y - s\<bar> \<le> u * (\<bar>a\<bar> + u * \<bar>a + s\<bar>)"
    using u by (rule mult_left_mono)
  then have e2': "\<bar>z - (y - s)\<bar> \<le> u * \<bar>a\<bar> + u * u * \<bar>a + s\<bar>"
    using e2 by (simp add: algebra_simps)
  have "\<bar>z - a\<bar> \<le> \<bar>z - (y - s)\<bar> + \<bar>y - (a + s)\<bar>" by linarith
  also have "\<dots> \<le> (u * \<bar>a\<bar> + u * u * \<bar>a + s\<bar>) + u * \<bar>a + s\<bar>"
    using e2' e1 by (rule add_mono)
  also have "\<dots> = u * \<bar>a\<bar> + (u + u * u) * \<bar>a + s\<bar>" by (simp add: algebra_simps)
  finally show ?thesis .
qed

section \<open>Claims on the climatology smoother\<close>

text \<open>
  Claim C6, as amended. For a matrix of \<open>w\<close> slots per year, \<open>w\<close> at least the filter
  window 13 (46 in the pipeline), in which each of the first 13 and of the last 13 slots
  is observed in at least one year, the code returns what the spec describes: entry
  \<open>i\<close> is the mean of the flattened anomaly (the matrix minus the raw per-slot means,
  which ignore missing values) over the entries \<open>max(0, i - 6)\<close> through
  \<open>min(n - 1, i + 6)\<close>, plus the per-slot means filtered with the window 13 and the
  order 3, at the slot of \<open>i\<close>, that is, tiled once per year. When one of those edge
  slots is observed in no year the filter raises ValueError and the smoother returns
  nothing. The Savitzky-Golay filter is the library's and stands as the parameter
  \<open>sg\<close>; it returns a profile as long as its input.
\<close>

theorem smoothing_LAI_refines_spec:
  assumes rect: "\<forall>row\<in>set m. length row = w"
    and lsg: "length (sg 13 3 (column_means m)) = length (column_means m)"
  shows "smoothing_LAI fl sg m
           = (if 13 \<le> w \<and> edge_slots_observed m w
              then Inr (map (smoothed_entry fl sg m w) [0..<length m * w])
              else Inl ValueError)"
proof (cases "13 \<le> w \<and> edge_slots_observed m w")
  case False
  then show ?thesis using smoothing_LAI_Inl [OF rect False] by simp
next
  case True
  then have w13: "13 \<le> w" and edge: "edge_slots_observed m w" by simp_all
  let ?n = "length m * w"
  let ?roll = "rolling_mean (concat (anomaly_of m)) 13"
  let ?tile = "concat (replicate (length m) (sg 13 3 (column_means m)))"
  have ne: "m \<noteq> []" using edge by (rule edge_slots_observed_ne)
  have cm: "column_means m = map (slot_mean m) [0..<w]"
    using ne rect by (rule column_means_rect)
  have lsg': "length (sg 13 3 (column_means m)) = w" using lsg by (simp add: cm)
  have lflat: "length (concat (anomaly_of m)) = ?n"
    using ne rect by (rule length_concat_anomaly_of)
  have lroll: "length ?roll = ?n" using lflat by simp
  have ltile: "length ?tile = ?n" using lsg' by (rule length_tile)
  have run: "smoothing_LAI fl sg m = Inr (map2 (fl_add fl) ?roll ?tile)"
    using rect w13 edge lsg by (rule smoothing_LAI_Inr)
  have "map2 (fl_add fl) ?roll ?tile = map (smoothed_entry fl sg m w) [0..<?n]"
  proof (rule nth_equalityI)
    show "length (map2 (fl_add fl) ?roll ?tile)
        = length (map (smoothed_entry fl sg m w) [0..<?n])"
      using lroll ltile by simp
    fix i assume "i < length (map2 (fl_add fl) ?roll ?tile)"
    then have i: "i < ?n" using lroll ltile by simp
    have r: "?roll ! i
        = window_average (nth (concat (anomaly_of m))) (i - 6) (min (?n - 1) (i + 6))"
      using nth_rolling_mean_13 [of i "concat (anomaly_of m)"] i lflat by simp
    have "window_average (nth (concat (anomaly_of m))) (i - 6) (min (?n - 1) (i + 6))
            = window_average (anomaly_at m w) (i - 6) (min (?n - 1) (i + 6))"
    proof (rule window_average_cong)
      fix j assume "i - 6 \<le> j" and "j \<le> min (?n - 1) (i + 6)"
      then have "j < ?n" using i by arith
      then show "concat (anomaly_of m) ! j = anomaly_at m w j"
        using ne rect by (simp add: nth_anomaly_of)
    qed
    then have r': "?roll ! i = window_average (anomaly_at m w) (i - 6) (min (?n - 1) (i + 6))"
      using r by simp
    have t: "?tile ! i = sg 13 3 (map (slot_mean m) [0..<w]) ! (i mod w)"
      using nth_tile [OF lsg', of i "length m"] i by (simp add: cm)
    show "map2 (fl_add fl) ?roll ?tile ! i = map (smoothed_entry fl sg m w) [0..<?n] ! i"
      using i lroll ltile by (simp add: r' t smoothed_entry_def)
  qed
  then show ?thesis using run True by simp
qed

text \<open>
  An instance: two fully observed years that differ in the first slot, a filter that
  returns the profile it is given, and a rounding that changes nothing.
\<close>

theorem smoothing_LAI_refines_spec_witness:
  "smoothing_LAI (\<lambda>x. x) (\<lambda>window_length polyorder x. x)
       [Some 2 # replicate 45 (Some 0), replicate 46 (Some 0)]
     = Inr (map (smoothed_entry (\<lambda>x. x) (\<lambda>window_length polyorder x. x)
                   [Some 2 # replicate 45 (Some 0), replicate 46 (Some 0)] 46) [0..<92])
   \<and> smoothed_entry (\<lambda>x. x) (\<lambda>window_length polyorder x. x)
        [Some 2 # replicate 45 (Some 0), replicate 46 (Some 0)] 46 0
     = Some (8 / 7)
   \<and> smoothed_entry (\<lambda>x. x) (\<lambda>window_length polyorder x. x)
        [Some 2 # replicate 45 (Some 0), replicate 46 (Some 0)] 46 46
     = Some (12 / 13)"
proof -
  let ?m = "[Some 2 # replicate 45 (Some 0), replicate 46 (Some (0::real))]"
  let ?sg = "\<lambda>(window_length::nat) (polyorder::nat) (x::cell list). x"
  let ?fl = "\<lambda>x::real. x"
  have h1: "\<forall>row\<in>set ?m. length row = 46" by simp
  have h2: "length (?sg 13 3 (column_means ?m)) = length (column_means ?m)" by simp
  have full: "\<forall>row\<in>set ?m. length row = 46 \<and> None \<notin> set row" by simp
  have edge: "edge_slots_observed ?m 46"
    by (rule full_edge_slots_observed [OF _ full]) simp_all
  have l: "length ?m * 46 = 92" by simp
  have run: "smoothing_LAI ?fl ?sg ?m = Inr (map (smoothed_entry ?fl ?sg ?m 46) [0..<92])"
    using smoothing_LAI_refines_spec [of ?m 46 ?sg ?fl, OF h1 h2] edge unfolding l by simp
  have e0: "smoothed_entry ?fl ?sg ?m 46 0 = Some (8 / 7)"
    by (simp add: smoothed_entry_def fl_add_def window_average_def anomaly_at_def
        slot_mean_def nanmean_def present_def List.map_filter_simps cell_value_def upt_rec)
  have e46: "smoothed_entry ?fl ?sg ?m 46 46 = Some (12 / 13)"
    by (simp add: smoothed_entry_def fl_add_def window_average_def anomaly_at_def
        slot_mean_def nanmean_def present_def List.map_filter_simps cell_value_def upt_rec)
  show ?thesis using run e0 e46 by (intro conjI)
qed

text \<open>
  Claim C6 as stated fails: in one retained year whose first two slots are missing the
  mean of slot 0 over the years is missing, the filter raises ValueError on it, and the
  smoother returns no series.
\<close>

theorem smoothing_LAI_unobserved_edge_slot:
  "smoothing_LAI (\<lambda>x. x) (\<lambda>window_length polyorder x. x)
       [None # None # replicate 44 (Some 1)] = Inl ValueError"
proof -
  let ?m = "[None # None # replicate 44 (Some (1::real))]"
  have rect: "\<forall>row\<in>set ?m. length row = 46" by simp
  have "\<not> observed_slot ?m 0" by (simp add: observed_slot_def)
  then have "\<not> (13 \<le> (46::nat) \<and> edge_slots_observed ?m 46)"
    by (simp add: edge_slots_observed_def upt_rec)
  with rect show ?thesis by (rule smoothing_LAI_Inl)
qed




text \<open>
  The failure depends neither on the filter nor on the rounding. On that matrix the
  anomaly is \<open>1\<close> at position 0 and \<open>-1\<close> at position 46, its rolling means there are
  \<open>1/7\<close> and \<open>-1/13\<close>, and both positions receive the same filtered mean \<open>v\<close> of slot
  0 and lose the same raw mean \<open>1\<close>. For the round trip to return the anomaly, the
  rounded \<open>1/7 + v\<close> would have to be near 2 and the rounded \<open>-1/13 + v\<close> near 0. No
  rounding that keeps the order of the numbers and is within a quarter of its argument
  between \<open>1/2\<close> and \<open>4\<close> does that, whatever \<open>v\<close> is.
\<close>

lemma map2_sub_add_nth:
  assumes "length r = n" and "length t = n" and "length c = n" and "i < n"
  shows "map2 (fl_sub fl) (map2 (fl_add fl) r t) c ! i
           = fl_sub fl (fl_add fl (r ! i) (t ! i)) (c ! i)"
  using assms by simp

lemma rounding_within:
  fixes x :: real
  assumes acc: "\<forall>x. 1 / 2 \<le> \<bar>x\<bar> \<and> \<bar>x\<bar> \<le> 4 \<longrightarrow> \<bar>fl x - x\<bar> \<le> \<bar>x\<bar> / 4"
    and x: "1 / 2 \<le> \<bar>x\<bar>" "\<bar>x\<bar> \<le> 4"
  shows "x - \<bar>x\<bar> / 4 \<le> fl x" and "fl x \<le> x + \<bar>x\<bar> / 4"
proof -
  have "\<bar>fl x - x\<bar> \<le> \<bar>x\<bar> / 4" using acc x by blast
  then show "x - \<bar>x\<bar> / 4 \<le> fl x" and "fl x \<le> x + \<bar>x\<bar> / 4" by linarith+
qed

lemma rounds_to_one:
  assumes mono: "\<forall>x y. x \<le> y \<longrightarrow> fl x \<le> fl y"
    and acc: "\<forall>x. 1 / 2 \<le> \<bar>x\<bar> \<and> \<bar>x\<bar> \<le> 4 \<longrightarrow> \<bar>fl x - x\<bar> \<le> \<bar>x\<bar> / 4"
    and one: "fl x = (1::real)"
  shows "4 / 5 \<le> x"
proof -
  have half: "fl (1 / 2) \<le> 5 / 8" using rounding_within(2) [OF acc, of "1 / 2"] by simp
  have "\<not> x < 1 / 2"
  proof
    assume "x < 1 / 2"
    then have "fl x \<le> fl (1 / 2)" using mono by simp
    then show False using half one by simp
  qed
  then have lo: "1 / 2 \<le> x" by simp
  show ?thesis
  proof (cases "x \<le> 4")
    case True
    have "fl x \<le> x + \<bar>x\<bar> / 4" using acc by (rule rounding_within(2)) (use lo True in linarith)+
    then show ?thesis using one lo by linarith
  next
    case False
    then show ?thesis by simp
  qed
qed

lemma rounds_below_half:
  assumes mono: "\<forall>x y. x \<le> y \<longrightarrow> fl x \<le> fl y"
    and acc: "\<forall>x. 1 / 2 \<le> \<bar>x\<bar> \<and> \<bar>x\<bar> \<le> 4 \<longrightarrow> \<bar>fl x - x\<bar> \<le> \<bar>x\<bar> / 4"
    and low: "fl x < (1 / 2 :: real)"
  shows "x \<le> 2 / 3"
proof (cases "1 / 2 \<le> x")
  case False
  then show ?thesis by simp
next
  case True
  have four: "3 \<le> fl 4" using rounding_within(1) [OF acc, of 4] by simp
  have "\<not> 4 < x"
  proof
    assume "4 < x"
    then have "fl 4 \<le> fl x" using mono by simp
    then show False using four low by simp
  qed
  then have hi: "x \<le> 4" by simp
  have "x - \<bar>x\<bar> / 4 \<le> fl x" using acc by (rule rounding_within(1)) (use True hi in linarith)+
  then show ?thesis using low True by linarith
qed

lemma rounding_gap:
  assumes mono: "\<forall>x y. x \<le> y \<longrightarrow> fl x \<le> fl y"
    and acc: "\<forall>x. 1 / 2 \<le> \<bar>x\<bar> \<and> \<bar>x\<bar> \<le> 4 \<longrightarrow> \<bar>fl x - x\<bar> \<le> \<bar>x\<bar> / 4"
    and up: "fl (fl (1 / 7 + v) - 1) = (1::real)"
    and down: "fl (fl (- (1 / 13) + v) - 1) = - 1"
  shows False
proof -
  have half: "fl (1 / 2) \<le> 5 / 8" using rounding_within(2) [OF acc, of "1 / 2"] by simp
  have mhalf: "- (5 / 8) \<le> fl (- (1 / 2))"
    using rounding_within(1) [OF acc, of "- (1 / 2)"] by simp
  have "4 / 5 \<le> fl (1 / 7 + v) - 1" using mono acc up by (rule rounds_to_one)
  then have y0: "9 / 5 \<le> fl (1 / 7 + v)" by simp
  have "\<not> 1 / 7 + v < 1 / 2"
  proof
    assume "1 / 7 + v < 1 / 2"
    then have "fl (1 / 7 + v) \<le> fl (1 / 2)" using mono by simp
    then show False using half y0 by simp
  qed
  then have alo: "1 / 2 \<le> 1 / 7 + v" by simp
  have A: "36 / 25 \<le> 1 / 7 + v"
  proof (cases "1 / 7 + v \<le> 4")
    case True
    have pos: "\<bar>1 / 7 + v\<bar> = 1 / 7 + v" using alo by simp
    have "fl (1 / 7 + v) \<le> (1 / 7 + v) + \<bar>1 / 7 + v\<bar> / 4"
      using acc by (rule rounding_within(2)) (use alo True in linarith)+
    then show ?thesis using y0 unfolding pos by (simp add: field_simps)
  next
    case False
    then show ?thesis by simp
  qed
  have "\<not> - (1 / 2) \<le> fl (- (1 / 13) + v) - 1"
  proof
    assume "- (1 / 2) \<le> fl (- (1 / 13) + v) - 1"
    then have "fl (- (1 / 2)) \<le> fl (fl (- (1 / 13) + v) - 1)" using mono by simp
    then show False using mhalf down by simp
  qed
  then have "fl (- (1 / 13) + v) < 1 / 2" by simp
  with mono acc have "- (1 / 13) + v \<le> 2 / 3" by (rule rounds_below_half)
  then show False using A by simp
qed

lemma round_trip_fails_for_every_filter:
  assumes mono: "\<forall>x y. x \<le> y \<longrightarrow> fl x \<le> fl y"
    and acc: "\<forall>x. 1 / 2 \<le> \<bar>x\<bar> \<and> \<bar>x\<bar> \<le> 4 \<longrightarrow> \<bar>fl x - x\<bar> \<le> \<bar>x\<bar> / 4"
  shows "round_trip fl sg [Some 2 # replicate 45 (Some 0), replicate 46 (Some 0)]
     \<noteq> Inr (concat (anomaly_of [Some 2 # replicate 45 (Some 0), replicate 46 (Some 0)]))"
proof
  let ?m = "[Some 2 # replicate 45 (Some 0), replicate 46 (Some (0::real))]"
  define cm where "cm = column_means ?m"
  define s where "s = sg 13 3 cm"
  define flat where "flat = concat (anomaly_of ?m)"
  define roll where "roll = rolling_mean flat 13"
  define tile where "tile = concat (replicate 2 s)"
  define clim where "clim = concat (replicate 2 cm)"
  assume eq: "round_trip fl sg ?m = Inr (concat (anomaly_of ?m))"
  have ne: "?m \<noteq> []" by simp
  have full: "\<forall>row\<in>set ?m. length row = 46 \<and> None \<notin> set row" by simp
  have rect: "\<forall>row\<in>set ?m. length row = 46" by simp
  have lcm: "length cm = 46" unfolding cm_def by (rule two_years_means(1))
  have c0: "cm ! 0 = Some 1" unfolding cm_def by (rule two_years_means(2))
  have lflat: "length flat = 92" unfolding flat_def by (rule two_years_anomaly(1))
  have a0: "flat ! 0 = Some 1" unfolding flat_def by (rule two_years_anomaly(2))
  have a46: "flat ! 46 = Some (- 1)" unfolding flat_def by (rule two_years_anomaly(3))
  have r0: "roll ! 0 = Some (1 / 7)" unfolding roll_def flat_def by (rule two_years_rolling(1))
  have r46: "roll ! 46 = Some (- (1 / 13))"
    unfolding roll_def flat_def by (rule two_years_rolling(2))
  have lroll: "length roll = 92" using lflat by (simp add: roll_def)
  have ltile: "length tile = 2 * length s"
    unfolding tile_def using length_tile [of s "length s" 2] by simp
  have lclim: "length clim = 92"
    unfolding clim_def using length_tile [OF lcm, of 2] by simp
  have k0: "clim ! 0 = Some 1"
    unfolding clim_def using nth_tile [OF lcm, of 0 2] c0 by simp
  have k46: "clim ! 46 = Some 1"
    unfolding clim_def using nth_tile [OF lcm, of 46 2] c0 by simp
  have edge: "edge_slots_observed ?m 46"
    by (rule full_edge_slots_observed [OF ne full]) simp
  have sv: "savgol_filter sg (column_means ?m) 13 3 = Inr s"
    unfolding savgol_filter_profile [OF rect] s_def cm_def using edge by simp
  have la: "length (anomaly_of ?m) = 2" by (simp add: anomaly_of_def)
  have smooth: "smoothing_LAI fl sg ?m = np_add fl roll tile"
    unfolding smoothing_LAI_def sv sum.case Let_def la roll_def flat_def tile_def ..
  show False
  proof (cases "length s = 46")
    case False
    then have "length roll \<noteq> length tile" and "length tile \<noteq> 1" and "length roll \<noteq> 1"
      using lroll ltile by simp_all
    then have "np_add fl roll tile = Inl ValueError" by (simp only: np_add_def if_False)
    then have "round_trip fl sg ?m = Inl ValueError"
      by (simp only: round_trip_def smooth sum.case)
    then show False using eq by simp
  next
    case True
    then have lt: "length tile = 92" using ltile by simp
    have "np_add fl roll tile = Inr (map2 (fl_add fl) roll tile)"
      using lroll lt by (simp add: np_add_def)
    moreover have "length ?m = 2" by simp
    ultimately have "round_trip fl sg ?m
        = Inr (map2 (fl_sub fl) (map2 (fl_add fl) roll tile) clim)"
      unfolding round_trip_def smooth clim_def cm_def by (simp only: sum.case)
    then have lists: "map2 (fl_sub fl) (map2 (fl_add fl) roll tile) clim = flat"
      using eq by (simp add: flat_def)
    have t0: "tile ! 0 = s ! 0" unfolding tile_def using nth_tile [OF True, of 0 2] by simp
    have t46: "tile ! 46 = s ! 0" unfolding tile_def using nth_tile [OF True, of 46 2] by simp
    have e0: "fl_sub fl (fl_add fl (Some (1 / 7)) (s ! 0)) (Some 1) = Some 1"
      using map2_sub_add_nth [OF lroll lt lclim, of 0 fl] by (simp only: lists a0 r0 t0 k0)
    have e46: "fl_sub fl (fl_add fl (Some (- (1 / 13))) (s ! 0)) (Some 1) = Some (- 1)"
      using map2_sub_add_nth [OF lroll lt lclim, of 46 fl] by (simp only: lists a46 r46 t46 k46)
    show False
    proof (cases "s ! 0")
      case None
      then show False using e0 by (simp add: fl_sub_def fl_add_def)
    next
      case (Some v)
      have "fl (fl (1 / 7 + v) - 1) = 1"
        using e0 by (simp add: Some fl_sub_def fl_add_def)
      moreover have "fl (fl (- (1 / 13) + v) - 1) = - 1"
        using e46 by (simp add: Some fl_sub_def fl_add_def)
      ultimately show False using mono acc by (intro rounding_gap [of fl v])
    qed
  qed
qed

section \<open>Columns of the selected pixels\<close>

lemma assign_column_exact: "length v = n \<Longrightarrow> assign_column n v = Inr v"
  by (simp add: assign_column_def)

lemma scaled_column_Inr:
  assumes "pixel_rows t p \<noteq> []" and "n \<le> length (pixel_rows t p)"
  shows "scaled_column t p n =
           Inr (map (\<lambda>i. nan_mul (val (pixel_rows t p ! i)) (scale (hd (pixel_rows t p)))) [0..<n])"
proof -
  obtain r0 rs where rows: "pixel_rows t p = r0 # rs" using assms(1) by (cases "pixel_rows t p") auto
  have "map (\<lambda>r. nan_mul (val r) (scale r0)) (take n (r0 # rs))
          = map (\<lambda>i. nan_mul (val ((r0 # rs) ! i)) (scale r0)) [0..<n]"
    using assms(2) unfolding rows by (intro nth_equalityI) simp_all
  then show ?thesis
    using assms(2) rows
    by (simp add: scaled_column_def pixel_rows_def [symmetric] assign_column_exact
        del: take_Suc_Cons)
qed

lemma raw_column_Inr:
  assumes "n \<le> length (pixel_rows t p)"
  shows "raw_column t p n = Inr (map (\<lambda>i. val (pixel_rows t p ! i)) [0..<n])"
proof -
  have "map val (take n (pixel_rows t p)) = map (\<lambda>i. val (pixel_rows t p ! i)) [0..<n]"
    using assms by (intro nth_equalityI) simp_all
  then show ?thesis
    using assms by (simp add: raw_column_def pixel_rows_def [symmetric] assign_column_exact)
qed

lemma select_columns_Inr:
  assumes "\<forall>p\<in>set ps. pixel_rows lai p \<noteq> [] \<and> pixel_rows sd p \<noteq> []
             \<and> n \<le> length (pixel_rows lai p) \<and> n \<le> length (pixel_rows sd p)
             \<and> n \<le> length (pixel_rows qc p)"
  shows "select_columns lai sd qc n ps =
           Inr (map (\<lambda>p.
                  (map (\<lambda>i. nan_mul (val (pixel_rows lai p ! i)) (scale (hd (pixel_rows lai p)))) [0..<n],
                   map (\<lambda>i. nan_mul (val (pixel_rows sd p ! i)) (scale (hd (pixel_rows sd p)))) [0..<n],
                   map (\<lambda>i. val (pixel_rows qc p ! i)) [0..<n])) ps)"
  using assms
  by (induction ps) (simp_all add: scaled_column_Inr raw_column_Inr)

lemma from_columns_map:
  "from_columns n (map (\<lambda>p. map (f p) [0..<n]) ps) = map (\<lambda>t. map (\<lambda>p. f p t) ps) [0..<n]"
  by (simp add: from_columns_def comp_def)

lemma max_list_int_ge: "x \<in> set ys \<Longrightarrow> x \<le> max_list_int ys"
proof -
  assume x: "x \<in> set ys"
  then have "ys \<noteq> []" by auto
  then have "max_list_int ys = Max (set ys)" by (rule max_list_int_Max)
  then show ?thesis using x by simp
qed


text \<open>
  On a LAI table whose pixel identifiers are exactly \<open>1, ..., k\<close> the divisor of the
  code is the number of distinct pixels, and the code's number of time steps is the one
  the spec words.
\<close>

lemma no_tsteps_of_contiguous_pixels:
  assumes px: "set (map pixel lai) = {1..k}" and k: "1 \<le> k"
  shows "nat (no_tsteps_of lai sd qc) = claimed_no_tsteps lai sd qc"
proof -
  have ne: "map pixel lai \<noteq> []" using px k by auto
  have mx: "max_list_int (map pixel lai) = k"
    unfolding max_list_int_Max [OF ne] px using k by (simp add: Max_eq_iff)
  have "length (remdups (map pixel lai)) = card {1..k}"
    unfolding length_remdups_card_conv px ..
  then have cnt: "length (remdups (map pixel lai)) = nat k" by simp
  have "int (min (length lai) (min (length sd) (length qc))) div k
          = int (min (length lai) (min (length sd) (length qc)) div nat k)"
    using k by (simp add: zdiv_int)
  then show ?thesis
    unfolding no_tsteps_of_def claimed_no_tsteps_def mx cnt by simp
qed

section \<open>Claims on the pixel selector\<close>

text \<open>
  Claim C9, as amended. The number of time steps \<open>n\<close> is the smallest of the three
  tables' lengths, floor-divided by the largest pixel identifier of the LAI table (which
  is the number of distinct pixels when the identifiers are 1, 2, ... without a hole).
  When each of the pixels 7, 8, 9, 12, 13, 14, 17, 18, 19 has at least \<open>n\<close> rows in
  each table, and a row in the LAI and the standard-deviation table, the selector returns
  three grids of \<open>n\<close> rows and nine columns in that order of the pixels: a LAI or
  standard-deviation entry is the raw value of the pixel's row \<open>t\<close> times the scale of
  the pixel's first row, a QC entry is the raw value, and the timestamps are the dates of
  the first pixel's rows in the LAI table.
\<close>

theorem get_LAI_grids_selects:
  assumes rows: "\<forall>p\<in>set pixel_no. pixel_rows lai p \<noteq> [] \<and> pixel_rows sd p \<noteq> []
             \<and> n \<le> length (pixel_rows lai p) \<and> n \<le> length (pixel_rows sd p)
             \<and> n \<le> length (pixel_rows qc p)"
    and n: "n = nat (int (min (length lai) (min (length sd) (length qc)))
                      div max_list_int (map pixel lai))"
  shows "get_LAI_grids lai sd qc =
           Inr \<lparr>lai_pixel = map (\<lambda>t. map (\<lambda>p. nan_mul (val (pixel_rows lai p ! t))
                                                (scale (hd (pixel_rows lai p)))) pixel_no) [0..<n],
                sd_pixel = map (\<lambda>t. map (\<lambda>p. nan_mul (val (pixel_rows sd p ! t))
                                               (scale (hd (pixel_rows sd p)))) pixel_no) [0..<n],
                qc_pixel = map (\<lambda>t. map (\<lambda>p. val (pixel_rows qc p ! t)) pixel_no) [0..<n],
                lai_time = map calendar_date (pixel_rows lai (hd pixel_no))\<rparr>"
proof -
  have "19 \<in> set pixel_no" by (simp add: pixel_no_def)
  then have "pixel_rows lai 19 \<noteq> []" using rows by blast
  then obtain r where r: "r \<in> set lai" and p: "pixel r = 19"
    unfolding pixel_rows_def by (auto simp: filter_empty_conv)
  have ne: "lai \<noteq> []" using r by auto
  have "19 \<in> set (map pixel lai)" using r p by force
  then have "19 \<le> max_list_int (map pixel lai)" by (rule max_list_int_ge)
  then have mpos: "0 < max_list_int (map pixel lai)" by simp
  then have "0 \<le> int (min (length lai) (min (length sd) (length qc)))
                 div max_list_int (map pixel lai)"
    by (simp only: pos_imp_zdiv_nonneg_iff of_nat_0_le_iff)
  then have nonneg: "\<not> no_tsteps_of lai sd qc < 0"
    by (simp only: no_tsteps_of_def not_less)
  have n': "nat (no_tsteps_of lai sd qc) = n" by (simp add: n no_tsteps_of_def)
  show ?thesis
    using ne mpos nonneg
    by (simp add: get_LAI_grids_def Let_def n' select_columns_Inr [OF rows] comp_def
        from_columns_map pixel_rows_def [symmetric])
qed


theorem get_LAI_grids_selects_witness:
  "get_LAI_grids nine_pixel_table nine_pixel_table nine_pixel_table
     = Inr \<lparr>lai_pixel = [[Some (7 / 10), Some (8 / 10), Some (9 / 10), Some (12 / 10),
                          Some (13 / 10), Some (14 / 10), Some (17 / 10), Some (18 / 10),
                          Some (19 / 10)]],
            sd_pixel = [[Some (7 / 10), Some (8 / 10), Some (9 / 10), Some (12 / 10),
                         Some (13 / 10), Some (14 / 10), Some (17 / 10), Some (18 / 10),
                         Some (19 / 10)]],
            qc_pixel = [[Some 7, Some 8, Some 9, Some 12, Some 13, Some 14, Some 17, Some 18,
                         Some 19]],
            lai_time = [(2003, 1), (2003, 9), (2003, 17)]\<rparr>"
proof -
  have three: "[0..<3] = [0, 1, 2]" by (simp add: upt_conv_Cons)
  have mx: "max_list_int (map pixel nine_pixel_table) = 19"
    by (simp add: nine_pixel_table_def pixel_no_def max_list_int_def three)
  have n: "(1::nat) = nat (int (min (length nine_pixel_table)
                (min (length nine_pixel_table) (length nine_pixel_table)))
                      div max_list_int (map pixel nine_pixel_table))"
    unfolding mx by (simp add: nine_pixel_table_def pixel_no_def three)
  have rows: "\<forall>p\<in>set pixel_no. pixel_rows nine_pixel_table p \<noteq> []
      \<and> pixel_rows nine_pixel_table p \<noteq> []
      \<and> 1 \<le> length (pixel_rows nine_pixel_table p) \<and> 1 \<le> length (pixel_rows nine_pixel_table p)
      \<and> 1 \<le> length (pixel_rows nine_pixel_table p)"
    by (simp add: nine_pixel_table_def pixel_no_def pixel_rows_def three)
  from get_LAI_grids_selects [OF rows n] show ?thesis
    by (simp add: nine_pixel_table_def pixel_no_def pixel_rows_def three)
qed


text \<open>
  Claim C9 as stated fails: in a table that holds the nine selected pixels only, with
  three dates each, the observations divided by the number of distinct pixels are 3 time
  steps, and the code builds grids of 27 div 19 = 1 row.
\<close>

theorem no_tsteps_divides_by_largest_pixel:
  "claimed_no_tsteps nine_pixel_table nine_pixel_table nine_pixel_table = 3
   \<and> map_sum id (\<lambda>s. length (lai_pixel s))
         (get_LAI_grids nine_pixel_table nine_pixel_table nine_pixel_table) = Inr 1"
  by code_simp

end
